(* ===== verification/Prelude.thy ===== *)
theory Prelude
  imports Main "HOL-Library.Word" "HOL-Library.Multiset"
begin

text \<open>
  The part of the Go language and of its standard library that the program uses, and the generic
  lemmas the components share.

  A Go \<^verbatim>\<open>string\<close> or \<^verbatim>\<open>[]byte\<close> is a list of octets (\<^typ>\<open>string\<close>, whose
  characters are octets). A Go \<^verbatim>\<open>int\<close> or \<^verbatim>\<open>int64\<close> is an \<^typ>\<open>int\<close> whose
  arithmetic is wrapped to 64 bits by \<open>wrap64\<close> wherever a result can leave the range. A
  \<^verbatim>\<open>time.Time\<close> is the number of nanoseconds since the zero time, a
  \<^verbatim>\<open>time.Duration\<close> a wrapped number of nanoseconds. A \<^verbatim>\<open>net.IP\<close> is its byte
  slice.

  What the library does by tables or by parsers for textual addresses is a parameter of the model,
  the record \<open>golib\<close>: the Unicode case mappings of strings that hold a non-ASCII octet,
  \<^verbatim>\<open>net.ParseCIDR\<close>, \<^verbatim>\<open>net.ParseIP\<close>, \<^verbatim>\<open>net.SplitHostPort\<close> and
  \<^verbatim>\<open>net.IP.String\<close>. Every theorem holds for every value of it, or names what it needs.
\<close>

section \<open>Collections of rewrite rules\<close>

named_theorems go_string \<open>definitions of the Go string functions\<close>
named_theorems frame \<open>fields an operation leaves unchanged\<close>

section \<open>Machine integers and time\<close>

definition wrap64 :: "int \<Rightarrow> int" where
  "wrap64 x = (x + 2 ^ 63) mod 2 ^ 64 - 2 ^ 63"

definition in_int64 :: "int \<Rightarrow> bool" where
  "in_int64 x \<longleftrightarrow> - (2 ^ 63) \<le> x \<and> x < 2 ^ 63"

lemma wrap64_id [simp]: "in_int64 x \<Longrightarrow> wrap64 x = x"
  by (simp add: wrap64_def in_int64_def)

lemma in_int64_wrap64 [simp]: "in_int64 (wrap64 x)"
proof -
  have "0 \<le> (x + 2 ^ 63) mod 2 ^ 64" "(x + 2 ^ 63) mod 2 ^ 64 < (2::int) ^ 64"
    by simp_all
  then show ?thesis by (simp add: wrap64_def in_int64_def)
qed

lemma wrap64_wrap64 [simp]: "wrap64 (wrap64 x) = wrap64 x"
  by simp

lemma wrap64_add_left: "wrap64 (wrap64 x + y) = wrap64 (x + y)"
  by (simp add: wrap64_def mod_simps algebra_simps)

lemma wrap64_sint: "wrap64 x = sint (word_of_int x :: 64 word)"
proof -
  have "sint (word_of_int x :: 64 word) = signed_take_bit 63 x"
    by (simp add: sint_sbintrunc')
  also have "\<dots> = wrap64 x"
    by (simp add: signed_take_bit_eq_take_bit_shift wrap64_def take_bit_eq_mod)
  finally show ?thesis by simp
qed

text \<open>\<^verbatim>\<open>time.Duration(n) * time.Second\<close>.\<close>

definition seconds :: "int \<Rightarrow> int" where
  "seconds n = wrap64 (n * 1000000000)"

lemma seconds_exact:
  "0 \<le> n \<Longrightarrow> n \<le> 9223372036 \<Longrightarrow> seconds n = n * 1000000000"
  unfolding seconds_def by (rule wrap64_id) (simp add: in_int64_def)

text \<open>\<^verbatim>\<open>Time.Sub\<close> saturates at the limits of \<^verbatim>\<open>Duration\<close>.\<close>

definition time_Sub :: "int \<Rightarrow> int \<Rightarrow> int" where
  "time_Sub a b = max (- (2 ^ 63)) (min (2 ^ 63 - 1) (a - b))"

section \<open>Strings\<close>

abbreviation (input) CR :: char where "CR \<equiv> CHR 0x0D"
abbreviation (input) LF :: char where "LF \<equiv> CHR 0x0A"
abbreviation (input) TAB :: char where "TAB \<equiv> CHR 0x09"
abbreviation (input) SP :: char where "SP \<equiv> CHR 0x20"
abbreviation (input) CRLF :: string where "CRLF \<equiv> [CHR 0x0D, CHR 0x0A]"

definition octet :: "char \<Rightarrow> nat" where
  "octet c = of_char c"

definition isASCII :: "string \<Rightarrow> bool" where
  "isASCII s \<longleftrightarrow> list_all (\<lambda>c. octet c < 128) s"

definition lower_char :: "char \<Rightarrow> char" where
  "lower_char c = (if 65 \<le> octet c \<and> octet c \<le> 90 then char_of (octet c + 32) else c)"

definition upper_char :: "char \<Rightarrow> char" where
  "upper_char c = (if 97 \<le> octet c \<and> octet c \<le> 122 then char_of (octet c - 32) else c)"

record ipnet =
  net_IP :: "8 word list"
  net_Mask :: "8 word list"

record golib =
  mapLower :: "string \<Rightarrow> string"
  mapUpper :: "string \<Rightarrow> string"
  ParseCIDR :: "string \<Rightarrow> ipnet option"
  ParseIP :: "string \<Rightarrow> 8 word list"
  SplitHostPort :: "string \<Rightarrow> (string \<times> string) option"
  IPString :: "8 word list \<Rightarrow> string"

text \<open>\<^verbatim>\<open>strings.ToLower\<close> and \<^verbatim>\<open>strings.ToUpper\<close>: the ASCII path is written out, the
  other one maps the decoded runes by the Unicode tables.\<close>

definition ToLower :: "golib \<Rightarrow> string \<Rightarrow> string" where
  "ToLower G s = (if isASCII s then map lower_char s else mapLower G s)"

definition ToUpper :: "golib \<Rightarrow> string \<Rightarrow> string" where
  "ToUpper G s = (if isASCII s then map upper_char s else mapUpper G s)"

text \<open>\<^verbatim>\<open>strings.EqualFold\<close> against a prefix whose letters have no non-ASCII case variant,
  as \<^verbatim>\<open>FROM:\<close> and \<^verbatim>\<open>TO:\<close>: case-insensitive equality of ASCII letters.\<close>

definition EqualFold :: "string \<Rightarrow> string \<Rightarrow> bool" where
  "EqualFold s t \<longleftrightarrow> map lower_char s = map lower_char t"

definition HasPrefix :: "string \<Rightarrow> string \<Rightarrow> bool" where
  "HasPrefix s p \<longleftrightarrow> take (length p) s = p"

definition HasSuffix :: "string \<Rightarrow> string \<Rightarrow> bool" where
  "HasSuffix s p \<longleftrightarrow> length p \<le> length s \<and> drop (length s - length p) s = p"

definition TrimPrefix :: "string \<Rightarrow> string \<Rightarrow> string" where
  "TrimPrefix s p = (if HasPrefix s p then drop (length p) s else s)"

definition TrimSuffix :: "string \<Rightarrow> string \<Rightarrow> string" where
  "TrimSuffix s p = (if HasSuffix s p then take (length s - length p) s else s)"

text \<open>\<^verbatim>\<open>strings.TrimLeft\<close> and \<^verbatim>\<open>strings.TrimRight\<close> with an ASCII cutset.\<close>

definition TrimLeft :: "string \<Rightarrow> string \<Rightarrow> string" where
  "TrimLeft s cs = dropWhile (\<lambda>c. c \<in> set cs) s"

definition TrimRight :: "string \<Rightarrow> string \<Rightarrow> string" where
  "TrimRight s cs = rev (dropWhile (\<lambda>c. c \<in> set cs) (rev s))"

text \<open>\<^verbatim>\<open>strings.Index\<close>, \<^verbatim>\<open>strings.IndexAny\<close> and \<^verbatim>\<open>strings.LastIndex\<close> of
  single ASCII characters; \<^const>\<open>None\<close> is the result -1.\<close>

fun IndexAny :: "string \<Rightarrow> string \<Rightarrow> nat option" where
  "IndexAny [] cs = None"
| "IndexAny (c # s) cs = (if c \<in> set cs then Some 0 else map_option Suc (IndexAny s cs))"

fun LastIndex :: "string \<Rightarrow> char \<Rightarrow> nat option" where
  "LastIndex [] a = None"
| "LastIndex (c # s) a =
     (case LastIndex s a of
        Some i \<Rightarrow> Some (Suc i)
      | None \<Rightarrow> if c = a then Some 0 else None)"

text \<open>\<^verbatim>\<open>strings.TrimSpace\<close>: the UTF-8 encodings of the runes with the Unicode property
  White\_Space are removed from both ends.\<close>

definition space_encodings :: "string list" where
  "space_encodings =
     [[CHR 0x09], [CHR 0x0A], [CHR 0x0B], [CHR 0x0C], [CHR 0x0D], [CHR 0x20],
      [CHR 0xC2, CHR 0x85], [CHR 0xC2, CHR 0xA0], [CHR 0xE1, CHR 0x9A, CHR 0x80],
      [CHR 0xE2, CHR 0x80, CHR 0x80], [CHR 0xE2, CHR 0x80, CHR 0x81],
      [CHR 0xE2, CHR 0x80, CHR 0x82], [CHR 0xE2, CHR 0x80, CHR 0x83],
      [CHR 0xE2, CHR 0x80, CHR 0x84], [CHR 0xE2, CHR 0x80, CHR 0x85],
      [CHR 0xE2, CHR 0x80, CHR 0x86], [CHR 0xE2, CHR 0x80, CHR 0x87],
      [CHR 0xE2, CHR 0x80, CHR 0x88], [CHR 0xE2, CHR 0x80, CHR 0x89],
      [CHR 0xE2, CHR 0x80, CHR 0x8A], [CHR 0xE2, CHR 0x80, CHR 0xA8],
      [CHR 0xE2, CHR 0x80, CHR 0xA9], [CHR 0xE2, CHR 0x80, CHR 0xAF],
      [CHR 0xE2, CHR 0x81, CHR 0x9F], [CHR 0xE3, CHR 0x80, CHR 0x80]]"

function strip_any :: "string list \<Rightarrow> string \<Rightarrow> string" where
  "strip_any es s =
     (case find (\<lambda>e. e \<noteq> [] \<and> HasPrefix s e) es of
        None \<Rightarrow> s
      | Some e \<Rightarrow> strip_any es (drop (length e) s))"
  by pat_completeness auto
termination
proof (relation "measure (\<lambda>(es, s). length s)")
  fix es s e
  assume "find (\<lambda>e. e \<noteq> [] \<and> HasPrefix s e) es = Some e"
  then have "e \<noteq> []" "take (length e) s = e"
    by (auto simp: find_Some_iff HasPrefix_def)
  then show "((es, drop (length e) s), (es, s)) \<in> measure (\<lambda>(es, s). length s)"
    by (cases s) auto
qed simp

declare strip_any.simps [simp del]

definition TrimSpace :: "string \<Rightarrow> string" where
  "TrimSpace s =
     rev (strip_any (map rev space_encodings) (rev (strip_any space_encodings s)))"

text \<open>\<^verbatim>\<open>strings.Split(s, "\r\n")\<close>.\<close>

fun SplitCRLF :: "string \<Rightarrow> string list" where
  "SplitCRLF [] = [[]]"
| "SplitCRLF [c] = [[c]]"
| "SplitCRLF (c # d # s) =
     (if c = CR \<and> d = LF then [] # SplitCRLF s
      else (case SplitCRLF (d # s) of [] \<Rightarrow> [[c]] | w # ws \<Rightarrow> (c # w) # ws))"

text \<open>\<^verbatim>\<open>bufio.Reader.ReadString('\n')\<close> on the unread octets: the line with its
  terminator, whether the terminator was found, and what stays unread.\<close>

fun ReadString :: "string \<Rightarrow> string \<times> bool \<times> string" where
  "ReadString [] = ([], False, [])"
| "ReadString (c # s) =
     (if c = LF then ([c], True, s)
      else (case ReadString s of (l, found, r) \<Rightarrow> (c # l, found, r)))"

text \<open>\<^verbatim>\<open>strconv.Itoa\<close> and \<^verbatim>\<open>fmt.Sprint\<close> of an integer, \<^verbatim>\<open>strconv.Atoi\<close>.\<close>

definition digit_char :: "nat \<Rightarrow> char" where
  "digit_char d = char_of (48 + d)"

definition is_digit :: "char \<Rightarrow> bool" where
  "is_digit c \<longleftrightarrow> 48 \<le> octet c \<and> octet c \<le> 57"

definition digit_val :: "char \<Rightarrow> nat" where
  "digit_val c = octet c - 48"

fun dec_nat :: "nat \<Rightarrow> string" where
  "dec_nat n = (if n < 10 then [digit_char n] else dec_nat (n div 10) @ [digit_char (n mod 10)])"

declare dec_nat.simps [simp del]

definition Itoa :: "int \<Rightarrow> string" where
  "Itoa v = (if v < 0 then CHR ''-'' # dec_nat (nat (- v)) else dec_nat (nat v))"

definition digits_val :: "string \<Rightarrow> nat" where
  "digits_val s = foldl (\<lambda>n c. 10 * n + digit_val c) 0 s"

definition ParseDigits :: "string \<Rightarrow> nat option" where
  "ParseDigits s = (if s \<noteq> [] \<and> list_all is_digit s then Some (digits_val s) else None)"

definition Atoi :: "string \<Rightarrow> int option" where
  "Atoi s =
     (let (neg, ds) = (case s of
            c # r \<Rightarrow> if c = CHR ''-'' then (True, r) else if c = CHR ''+'' then (False, r) else (False, s)
          | [] \<Rightarrow> (False, []))
      in case ParseDigits ds of
           None \<Rightarrow> None
         | Some n \<Rightarrow>
             (let v = (if neg then - int n else int n) in if in_int64 v then Some v else None))"

section \<open>IP addresses\<close>

definition v4InV6Prefix :: "8 word list" where
  "v4InV6Prefix = [0, 0, 0, 0, 0, 0, 0, 0, 0, 0, 0xff, 0xff]"

text \<open>\<^verbatim>\<open>IP.To4\<close>; \<^const>\<open>None\<close> is the nil result.\<close>

definition To4 :: "8 word list \<Rightarrow> 8 word list option" where
  "To4 ip =
     (if length ip = 4 then Some ip
      else if length ip = 16 \<and> take 12 ip = v4InV6Prefix then Some (drop 12 ip)
      else None)"

definition networkNumberAndMask :: "ipnet \<Rightarrow> 8 word list \<times> 8 word list" where
  "networkNumberAndMask n =
     (let ip = (case To4 (net_IP n) of Some x \<Rightarrow> x | None \<Rightarrow> net_IP n); m = net_Mask n
      in if To4 (net_IP n) = None \<and> length ip \<noteq> 16 then ([], [])
         else if length m = 4 then (if length ip \<noteq> 4 then ([], []) else (ip, m))
         else if length m = 16 then (ip, if length ip = 4 then drop 12 m else m)
         else ([], []))"

definition IPNet_Contains :: "ipnet \<Rightarrow> 8 word list \<Rightarrow> bool" where
  "IPNet_Contains n ip0 =
     (let (nn, m) = networkNumberAndMask n;
          ip = (case To4 ip0 of Some x \<Rightarrow> x | None \<Rightarrow> ip0)
      in length ip = length nn \<and>
         list_all (\<lambda>i. and (nn ! i) (m ! i) = and (ip ! i) (m ! i)) [0..<length ip])"

definition IP_Equal :: "8 word list \<Rightarrow> 8 word list \<Rightarrow> bool" where
  "IP_Equal ip x =
     (if length ip = length x then ip = x
      else if length ip = 4 \<and> length x = 16 then take 12 x = v4InV6Prefix \<and> ip = drop 12 x
      else if length ip = 16 \<and> length x = 4 then take 12 ip = v4InV6Prefix \<and> drop 12 ip = x
      else False)"

section \<open>Lemmas on strings\<close>

lemma HasPrefix_iff: "HasPrefix s p \<longleftrightarrow> (\<exists>t. s = p @ t)"
  by (auto simp: HasPrefix_def) (metis append_take_drop_id)

lemma HasSuffix_iff: "HasSuffix s p \<longleftrightarrow> (\<exists>t. s = t @ p)"
  by (auto simp: HasSuffix_def) (metis append_take_drop_id)

lemma HasSuffix_append [simp]: "HasSuffix (t @ p) p"
  by (auto simp: HasSuffix_iff)

lemma TrimSuffix_append [simp]: "TrimSuffix (t @ p) p = t"
  by (simp add: TrimSuffix_def)

lemma IndexAny_None: "IndexAny s cs = None \<longleftrightarrow> set s \<inter> set cs = {}"
  by (induction s) auto

lemma IndexAny_append:
  "set a \<inter> set cs = {} \<Longrightarrow> c \<in> set cs \<Longrightarrow> IndexAny (a @ c # r) cs = Some (length a)"
  by (induction a) auto

lemma IndexAny_Some:
  "IndexAny s cs = Some i \<Longrightarrow>
     i < length s \<and> s ! i \<in> set cs \<and> set (take i s) \<inter> set cs = {}"
  by (induction s arbitrary: i) (auto split: if_splits)

lemma LastIndex_None: "LastIndex s a = None \<longleftrightarrow> a \<notin> set s"
  by (induction s) (auto split: option.splits)

lemma LastIndex_append:
  "a \<notin> set d \<Longrightarrow> LastIndex (l @ a # d) a = Some (length l)"
proof (induction l)
  case Nil
  then show ?case using LastIndex_None [of d a] by simp
qed simp

lemma LastIndex_Some:
  "LastIndex s a = Some i \<Longrightarrow>
     i < length s \<and> s ! i = a \<and> a \<notin> set (drop (Suc i) s)"
  by (induction s arbitrary: i) (auto simp: LastIndex_None split: option.splits if_splits)

lemma LastIndex_split:
  "LastIndex s a = Some i \<longleftrightarrow> (\<exists>l d. s = l @ a # d \<and> a \<notin> set d \<and> i = length l)"
proof
  assume *: "LastIndex s a = Some i"
  then have "s = take i s @ a # drop (Suc i) s" "i = length (take i s)"
    using LastIndex_Some [of s a i] by (auto simp: id_take_nth_drop [symmetric])
  with LastIndex_Some [OF *] show "\<exists>l d. s = l @ a # d \<and> a \<notin> set d \<and> i = length l" by blast
qed (auto simp: LastIndex_append)

lemma LastIndex_after:
  "(\<exists>i. LastIndex s a = Some i \<and> P (drop (Suc i) s)) \<longleftrightarrow>
     (\<exists>l d. s = l @ a # d \<and> a \<notin> set d \<and> P d)"
proof
  assume "\<exists>i. LastIndex s a = Some i \<and> P (drop (Suc i) s)"
  then obtain i where i: "LastIndex s a = Some i" "P (drop (Suc i) s)" by blast
  then obtain l d where "s = l @ a # d" "a \<notin> set d" "i = length l"
    using LastIndex_split by blast
  with i(2) show "\<exists>l d. s = l @ a # d \<and> a \<notin> set d \<and> P d" by auto
next
  assume "\<exists>l d. s = l @ a # d \<and> a \<notin> set d \<and> P d"
  then obtain l d where "s = l @ a # d" "a \<notin> set d" "P d" by blast
  then show "\<exists>i. LastIndex s a = Some i \<and> P (drop (Suc i) s)"
    by (intro exI [of _ "length l"]) (simp add: LastIndex_append)
qed

lemma strip_any_suffix: "\<exists>t. s = t @ strip_any es s"
proof (induction es s rule: strip_any.induct)
  case (1 es s)
  show ?case
  proof (cases "find (\<lambda>e. e \<noteq> [] \<and> HasPrefix s e) es")
    case None
    then show ?thesis by (simp add: strip_any.simps [of es s])
  next
    case (Some e)
    then obtain t where t: "drop (length e) s = t @ strip_any es (drop (length e) s)"
      using "1" by blast
    have "s = take (length e) s @ drop (length e) s" by simp
    also have "\<dots> = (take (length e) s @ t) @ strip_any es (drop (length e) s)"
      using t by simp
    also have "strip_any es (drop (length e) s) = strip_any es s"
      using Some by (simp add: strip_any.simps [of es s])
    finally show ?thesis by blast
  qed
qed

lemma set_strip_any: "set (strip_any es s) \<subseteq> set s"
  using strip_any_suffix [of s es] by (metis set_append sup_ge2)

lemma set_TrimSpace: "set (TrimSpace s) \<subseteq> set s"
  using set_strip_any [of "map rev space_encodings" "rev (strip_any space_encodings s)"]
    set_strip_any [of space_encodings s]
  by (auto simp: TrimSpace_def)

lemma set_dropWhile_subset: "set (dropWhile P s) \<subseteq> set s"
  by (auto dest: set_dropWhileD)

lemma strip_any_id:
  assumes "\<And>e. e \<in> set es \<Longrightarrow> e \<noteq> [] \<Longrightarrow> \<not> HasPrefix s e"
  shows "strip_any es s = s"
proof -
  have "find (\<lambda>e. e \<noteq> [] \<and> HasPrefix s e) es = None"
    using assms by (auto simp: find_None_iff)
  then show ?thesis by (simp add: strip_any.simps [of es s])
qed

text \<open>A graphical ASCII character, one that no white space encoding begins or ends with.\<close>

definition graphic :: "char \<Rightarrow> bool" where
  "graphic c \<longleftrightarrow> 33 \<le> octet c \<and> octet c \<le> 126"

lemma space_encodings_edge:
  "e \<in> set space_encodings \<Longrightarrow> e \<noteq> [] \<and> \<not> graphic (hd e) \<and> \<not> graphic (last e)"
  by (auto simp: space_encodings_def graphic_def octet_def)

lemma TrimSpace_id:
  assumes "s = [] \<or> graphic (hd s) \<and> graphic (last s)"
  shows "TrimSpace s = s"
proof -
  have front: "strip_any space_encodings s = s"
  proof (rule strip_any_id)
    fix e
    assume "e \<in> set space_encodings" "e \<noteq> []"
    with assms space_encodings_edge [of e] show "\<not> HasPrefix s e"
      by (auto simp: HasPrefix_iff)
  qed
  have "strip_any (map rev space_encodings) (rev s) = rev s"
  proof (rule strip_any_id)
    fix e
    assume "e \<in> set (map rev space_encodings)" "e \<noteq> []"
    then obtain f where f: "f \<in> set space_encodings" "e = rev f" "f \<noteq> []" by auto
    show "\<not> HasPrefix (rev s) e"
    proof
      assume "HasPrefix (rev s) e"
      then obtain t where "rev s = rev f @ t" using f by (auto simp: HasPrefix_iff)
      then have "s = rev t @ f" by (metis rev_append rev_rev_ident)
      with f assms space_encodings_edge [of f] show False by auto
    qed
  qed
  with front show ?thesis by (simp add: TrimSpace_def)
qed

lemma octet_char_of [simp]: "n < 256 \<Longrightarrow> octet (char_of n) = n"
  by (simp add: octet_def of_char_of)

lemma lower_char_idem [simp]: "lower_char (lower_char c) = lower_char c"
  by (simp add: lower_char_def)

lemma lower_char_eq_ctl:
  "octet d < 65 \<Longrightarrow> lower_char c = d \<longleftrightarrow> c = d"
  by (auto simp: lower_char_def)

lemma isASCII_lower [simp]: "isASCII s \<Longrightarrow> isASCII (map lower_char s)"
  by (auto simp: isASCII_def list_all_iff lower_char_def)

lemma ToLower_ASCII: "isASCII s \<Longrightarrow> ToLower G s = map lower_char s"
  by (simp add: ToLower_def)

lemma ToLower_idem_ASCII: "isASCII s \<Longrightarrow> ToLower G (ToLower G s) = ToLower G s"
  by (simp add: ToLower_ASCII o_def)

text \<open>The documented behaviour of the Unicode case mapping that some theorems need: mapping twice
  is mapping once, and no line feed and no \<^verbatim>\<open>>\<close> appears that was not there.\<close>

definition lower_idem :: "golib \<Rightarrow> bool" where
  "lower_idem G \<longleftrightarrow> (\<forall>s. ToLower G (ToLower G s) = ToLower G s)"

definition lower_keeps :: "golib \<Rightarrow> bool" where
  "lower_keeps G \<longleftrightarrow> (\<forall>s. \<forall>c. octet c < 65 \<longrightarrow> c \<in> set (mapLower G s) \<longrightarrow> c \<in> set s)"

lemma set_ToLower:
  assumes "lower_keeps G" "octet c < 65" "c \<in> set (ToLower G s)"
  shows "c \<in> set s"
proof (cases "isASCII s")
  case True
  then obtain x where "x \<in> set s" "lower_char x = c"
    using assms(3) by (auto simp: ToLower_def)
  then show ?thesis using lower_char_eq_ctl [OF assms(2), of x] by simp
next
  case False
  then show ?thesis using assms by (auto simp: ToLower_def lower_keeps_def)
qed

section \<open>Lemmas on lines and numerals\<close>

lemma ReadString_split:
  "ReadString s = (l, found, r) \<Longrightarrow> s = l @ r"
  by (induction s arbitrary: l found r) (auto split: if_splits prod.splits)

lemma ReadString_line [simp]:
  "LF \<notin> set a \<Longrightarrow> ReadString (a @ LF # r) = (a @ [LF], True, r)"
  by (induction a) auto

lemma ReadString_tail [simp]:
  "LF \<notin> set a \<Longrightarrow> ReadString a = (a, False, [])"
  by (induction a) auto

lemma ReadString_found:
  "ReadString s = (l, True, r) \<Longrightarrow> \<exists>a. l = a @ [LF] \<and> LF \<notin> set a"
proof (induction s arbitrary: l r)
  case (Cons c s)
  show ?case
  proof (cases "c = LF")
    case True
    with Cons.prems show ?thesis by auto
  next
    case False
    then obtain l' where "ReadString s = (l', True, r)" "l = c # l'"
      using Cons.prems by (auto split: prod.splits)
    with Cons.IH obtain a where "l' = a @ [LF]" "LF \<notin> set a" by blast
    with \<open>l = c # l'\<close> False have "l = (c # a) @ [LF]" "LF \<notin> set (c # a)" by auto
    then show ?thesis by blast
  qed
qed simp

lemma ReadString_not_found:
  "ReadString s = (l, False, r) \<Longrightarrow> l = s \<and> r = [] \<and> LF \<notin> set s"
  by (induction s arbitrary: l r) (auto split: if_splits prod.splits)

lemma digit_char_digit [simp]: "d < 10 \<Longrightarrow> is_digit (digit_char d)"
  by (simp add: is_digit_def digit_char_def)

lemma digit_val_char [simp]: "d < 10 \<Longrightarrow> digit_val (digit_char d) = d"
  by (simp add: digit_val_def digit_char_def)

lemma digits_val_snoc [simp]: "digits_val (s @ [c]) = 10 * digits_val s + digit_val c"
  by (simp add: digits_val_def)

lemma dec_nat_digits: "dec_nat n \<noteq> [] \<and> list_all is_digit (dec_nat n)"
proof (induction n rule: dec_nat.induct)
  case (1 n)
  then show ?case by (cases "n < 10") (simp_all add: dec_nat.simps [of n])
qed

lemma digits_val_dec_nat [simp]: "digits_val (dec_nat n) = n"
proof (induction n rule: dec_nat.induct)
  case (1 n)
  show ?case
  proof (cases "n < 10")
    case True
    then show ?thesis by (simp add: dec_nat.simps [of n] digits_val_def)
  next
    case False
    with "1" show ?thesis by (simp add: dec_nat.simps [of n])
  qed
qed

lemma ParseDigits_dec_nat [simp]: "ParseDigits (dec_nat n) = Some n"
  using dec_nat_digits [of n] by (simp add: ParseDigits_def)

lemma is_digit_signs: "\<not> is_digit (CHR ''-'')" "\<not> is_digit (CHR ''+'')"
  by (simp_all add: is_digit_def octet_def)

lemma Atoi_digits:
  assumes "ParseDigits s = Some n"
  shows "Atoi s = (if in_int64 (int n) then Some (int n) else None)"
proof (cases s)
  case Nil
  with assms show ?thesis by (simp add: ParseDigits_def)
next
  case (Cons c r)
  with assms have "is_digit c" by (auto simp: ParseDigits_def split: if_splits)
  with is_digit_signs have "c \<noteq> CHR ''-''" "c \<noteq> CHR ''+''" by auto
  with Cons assms show ?thesis by (simp add: Atoi_def)
qed

lemma Atoi_Itoa: "in_int64 v \<Longrightarrow> Atoi (Itoa v) = Some v"
  by (cases "v < 0") (simp_all add: Itoa_def Atoi_digits, simp add: Atoi_def)

section \<open>Transition systems\<close>

text \<open>The states a step relation reaches from an initial state, and the interface of a component
  whose steps keep an invariant.\<close>

inductive reach :: "'s \<Rightarrow> ('s \<Rightarrow> 's \<Rightarrow> bool) \<Rightarrow> 's \<Rightarrow> bool" for s0 step where
  reach_init: "reach s0 step s0"
| reach_step: "reach s0 step s \<Longrightarrow> step s t \<Longrightarrow> reach s0 step t"

lemma reach_steps: "reach s0 step s \<Longrightarrow> step\<^sup>*\<^sup>* s t \<Longrightarrow> reach s0 step t"
  by (rotate_tac 1, induction rule: rtranclp_induct) (auto intro: reach.reach_step)

locale invariant_system =
  fixes s0 :: 's and step :: "'s \<Rightarrow> 's \<Rightarrow> bool" and inv :: "'s \<Rightarrow> bool"
  assumes inv_init: "inv s0"
    and inv_step: "step s t \<Longrightarrow> inv s \<Longrightarrow> inv t"
begin

lemma reach_inv: "reach s0 step s \<Longrightarrow> inv s"
  by (induction rule: reach.induct) (auto intro: inv_init inv_step)

lemma steps_inv: "step\<^sup>*\<^sup>* s t \<Longrightarrow> inv s \<Longrightarrow> inv t"
  by (induction rule: rtranclp_induct) (auto intro: inv_step)

end

end
