(* ===== verification/Config.thy ===== *)
theory Config
  imports Prelude
begin

text \<open>
  The configuration component, \<^verbatim>\<open>internal/config/config.go\<close>: the structures, the decoding of
  the three string enumerations, the derived values (\<^verbatim>\<open>Prepare\<close>), the accumulated faults
  (\<^verbatim>\<open>Validate\<close>), the loader and the route lookup.

  The enumerations are Go strings and stay strings here, because the code compares them with the
  empty string, prints them and concatenates them. A nil pointer is \<^const>\<open>None\<close>. The two route
  tables hold pointers into the route slice; the slice is not written after \<^verbatim>\<open>Prepare\<close> stored
  the pointer, so the table holds the route itself. A fault of \<^verbatim>\<open>Validate\<close> is a value of
  \<open>fault\<close> with the operands of its message. The JSON decoder is a parameter of \<open>Load\<close>.

  Shown: \<open>Validate\<close> reports nothing exactly for the configurations a declarative predicate
  describes; on a loaded configuration \<open>LookupRoute\<close> returns exactly the route the route list
  prescribes, an address route before a domain route; \<open>Prepare\<close> is idempotent; the durations are
  exact up to 9223372036 seconds and wrap to a negative value beyond, which \<open>Validate\<close> accepts.
\<close>

named_theorems mode_defs \<open>the string constants of the enumerations\<close>

section \<open>Enumerations\<close>

type_synonym TLSMode = string
type_synonym MatchType = string
type_synonym RouteType = string

definition TLSPlain :: TLSMode where [mode_defs]: "TLSPlain = ''plain''"
definition TLSStartTLS :: TLSMode where [mode_defs]: "TLSStartTLS = ''starttls''"
definition TLSImplicit :: TLSMode where [mode_defs]: "TLSImplicit = ''implicit''"

definition MatchAddress :: MatchType where [mode_defs]: "MatchAddress = ''address''"
definition MatchDomain :: MatchType where [mode_defs]: "MatchDomain = ''domain''"

definition RouteCommand :: RouteType where [mode_defs]: "RouteCommand = ''command''"
definition RouteWebhook :: RouteType where [mode_defs]: "RouteWebhook = ''webhook''"
definition RouteForward :: RouteType where [mode_defs]: "RouteForward = ''forward''"

datatype unmarshal_error = NotAString | UnknownTLSMode string | UnknownMatchType string
  | UnknownRouteType string

text \<open>The parameter \<open>unq\<close> is \<^verbatim>\<open>json.Unmarshal\<close> into a string.\<close>

definition UnmarshalTLSMode ::
    "(string \<Rightarrow> string option) \<Rightarrow> string \<Rightarrow> unmarshal_error + TLSMode" where
  "UnmarshalTLSMode unq b =
     (case unq b of
        None \<Rightarrow> Inl NotAString
      | Some s \<Rightarrow> if s = TLSPlain \<or> s = TLSStartTLS \<or> s = TLSImplicit then Inr s
                  else Inl (UnknownTLSMode s))"

definition UnmarshalMatchType ::
    "(string \<Rightarrow> string option) \<Rightarrow> string \<Rightarrow> unmarshal_error + MatchType" where
  "UnmarshalMatchType unq b =
     (case unq b of
        None \<Rightarrow> Inl NotAString
      | Some s \<Rightarrow> if s = MatchAddress \<or> s = MatchDomain then Inr s
                  else Inl (UnknownMatchType s))"

definition UnmarshalRouteType ::
    "(string \<Rightarrow> string option) \<Rightarrow> string \<Rightarrow> unmarshal_error + RouteType" where
  "UnmarshalRouteType unq b =
     (case unq b of
        None \<Rightarrow> Inl NotAString
      | Some s \<Rightarrow> if s = RouteCommand \<or> s = RouteWebhook \<or> s = RouteForward then Inr s
                  else Inl (UnknownRouteType s))"

section \<open>Structures\<close>

record Listener =
  l_Addr :: string
  l_TLS :: TLSMode

record TLS =
  t_Cert :: string
  t_Key :: string

record Limits =
  MaxMessageBytes :: int
  MaxConnections :: int
  CommandTimeoutSec :: int
  SessionTimeoutSec :: int

record DNS =
  d_TimeoutSec :: int
  d_Server :: string

record Retry =
  Enabled :: bool
  IntervalSec :: int
  ExpireSec :: int
  MaxEntries :: int
  MaxBytes :: int

record CIDREntry =
  CIDR :: string
  e_Domains :: "string list"
  e_Net :: "ipnet option"

record Provider =
  p_Name :: string
  PTRSuffixes :: "string list"
  p_Domains :: "string list"
  p_RequireSPF :: "bool option"

record WhitelistEntry =
  w_Match :: MatchType
  w_Value :: string
  w_RequireSPF :: "bool option"

record Route =
  r_Recipient :: string
  r_Match :: MatchType
  r_Type :: RouteType
  r_Path :: string
  r_Args :: "string list"
  TempFailExitCode :: int
  r_URL :: string
  r_Secret :: string
  r_Host :: string
  r_Port :: int
  r_TimeoutSec :: int

record Config =
  Hostname :: string
  Listeners :: "Listener list"
  c_TLS :: TLS
  c_Limits :: Limits
  c_DNS :: DNS
  c_Retry :: Retry
  CIDRWhitelist :: "CIDREntry list"
  Providers :: "Provider list"
  Whitelist :: "WhitelistEntry list"
  Routes :: "Route list"
  routeExact :: "string \<rightharpoonup> Route"
  routeDomain :: "string \<rightharpoonup> Route"

definition CommandTimeout :: "Limits \<Rightarrow> int" where
  "CommandTimeout l = seconds (CommandTimeoutSec l)"

definition SessionTimeout :: "Limits \<Rightarrow> int" where
  "SessionTimeout l = seconds (SessionTimeoutSec l)"

definition DNSTimeout :: "DNS \<Rightarrow> int" where
  "DNSTimeout d = seconds (d_TimeoutSec d)"

definition Interval :: "Retry \<Rightarrow> int" where
  "Interval r = seconds (IntervalSec r)"

definition Expire :: "Retry \<Rightarrow> int" where
  "Expire r = seconds (ExpireSec r)"

definition RouteTimeout :: "Route \<Rightarrow> int" where
  "RouteTimeout r = seconds (r_TimeoutSec r)"

definition p_SPFRequired :: "Provider \<Rightarrow> bool" where
  "p_SPFRequired p = (case p_RequireSPF p of None \<Rightarrow> True | Some b \<Rightarrow> b)"

definition w_SPFRequired :: "WhitelistEntry \<Rightarrow> bool" where
  "w_SPFRequired w = (case w_RequireSPF w of None \<Rightarrow> True | Some b \<Rightarrow> b)"

section \<open>Prepare\<close>

definition prepare_cidr :: "golib \<Rightarrow> CIDREntry \<Rightarrow> CIDREntry" where
  "prepare_cidr G e =
     (let e' = (case ParseCIDR G (CIDR e) of Some n \<Rightarrow> e\<lparr>e_Net := Some n\<rparr> | None \<Rightarrow> e)
      in e'\<lparr>e_Domains := map (ToLower G) (e_Domains e')\<rparr>)"

definition prepare_provider :: "golib \<Rightarrow> Provider \<Rightarrow> Provider" where
  "prepare_provider G p =
     p\<lparr>PTRSuffixes := map (\<lambda>x. ToLower G (TrimPrefix x ''.'')) (PTRSuffixes p),
       p_Domains := map (ToLower G) (p_Domains p)\<rparr>"

definition prepare_whitelist :: "golib \<Rightarrow> WhitelistEntry \<Rightarrow> WhitelistEntry" where
  "prepare_whitelist G w = w\<lparr>w_Value := ToLower G (w_Value w)\<rparr>"

definition prepare_route :: "golib \<Rightarrow> Route \<Rightarrow> Route" where
  "prepare_route G r =
     (let r' = (if r_Match r = '''' then r\<lparr>r_Match := MatchAddress\<rparr> else r)
      in r'\<lparr>r_Recipient := ToLower G (r_Recipient r')\<rparr>)"

text \<open>One turn of the loop over the routes, after the route is normalised.\<close>

definition store_route ::
    "Route \<Rightarrow> (string \<rightharpoonup> Route) \<times> (string \<rightharpoonup> Route) \<Rightarrow> (string \<rightharpoonup> Route) \<times> (string \<rightharpoonup> Route)" where
  "store_route r t =
     (if r_Match r = MatchAddress then ((fst t)(r_Recipient r \<mapsto> r), snd t)
      else if r_Match r = MatchDomain then (fst t, (snd t)(r_Recipient r \<mapsto> r))
      else t)"

definition Prepare :: "golib \<Rightarrow> Config \<Rightarrow> Config" where
  "Prepare G c =
     (let rs = map (prepare_route G) (Routes c);
          t = fold store_route rs (Map.empty, Map.empty)
      in c\<lparr>Hostname := ToLower G (TrimSpace (Hostname c)),
           CIDRWhitelist := map (prepare_cidr G) (CIDRWhitelist c),
           Providers := map (prepare_provider G) (Providers c),
           Whitelist := map (prepare_whitelist G) (Whitelist c),
           Routes := rs, routeExact := fst t, routeDomain := snd t\<rparr>)"

section \<open>Validate\<close>

datatype fault =
    HostnameEmpty | NoListeners
  | ListenerAddr nat string | ListenerTLSEmpty nat | TLSPathsEmpty
  | MaxMessageBytesRange | MaxConnectionsRange | CommandTimeoutRange | SessionTimeoutRange
  | DNSTimeoutRange | RetryIntervalRange | RetryExpireRange | RetryMaxEntriesRange
  | RetryMaxBytesRange | CIDRUnparsed nat string
  | ProviderName nat | ProviderSuffixes nat | ProviderDomains nat
  | WhitelistMatchEmpty nat | WhitelistValueEmpty nat | WhitelistNoAt nat string
  | NoRoutes | RouteDuplicate nat string string | RouteRecipientEmpty nat | RouteTimeoutRange nat
  | RouteNoPath nat | RouteURL nat string | RouteNoSecret nat | RouteNoHost nat
  | RoutePort nat int | RouteTypeEmpty nat

definition add_if :: "bool \<Rightarrow> fault \<Rightarrow> fault list" where
  "add_if b f = (if b then [f] else [])"

definition validate_listener :: "golib \<Rightarrow> nat \<Rightarrow> Listener \<Rightarrow> fault list" where
  "validate_listener G i l =
     add_if (SplitHostPort G (l_Addr l) = None) (ListenerAddr i (l_Addr l)) @
     add_if (l_TLS l = '''') (ListenerTLSEmpty i)"

definition needTLS :: "Listener list \<Rightarrow> bool" where
  "needTLS ls = fold (\<lambda>l b. if l_TLS l = TLSStartTLS \<or> l_TLS l = TLSImplicit then True else b) ls False"

definition validate_limits :: "Limits \<Rightarrow> DNS \<Rightarrow> fault list" where
  "validate_limits l d =
     add_if (MaxMessageBytes l \<le> 0) MaxMessageBytesRange @
     add_if (MaxConnections l \<le> 0) MaxConnectionsRange @
     add_if (CommandTimeoutSec l \<le> 0) CommandTimeoutRange @
     add_if (SessionTimeoutSec l \<le> 0) SessionTimeoutRange @
     add_if (d_TimeoutSec d \<le> 0) DNSTimeoutRange"

definition validate_retry :: "Retry \<Rightarrow> fault list" where
  "validate_retry r =
     (if Enabled r then
        add_if (IntervalSec r \<le> 0) RetryIntervalRange @
        add_if (ExpireSec r \<le> IntervalSec r) RetryExpireRange @
        add_if (MaxEntries r \<le> 0) RetryMaxEntriesRange @
        add_if (MaxBytes r \<le> 0) RetryMaxBytesRange
      else [])"

definition validate_cidr :: "nat \<Rightarrow> CIDREntry \<Rightarrow> fault list" where
  "validate_cidr i e = add_if (e_Net e = None) (CIDRUnparsed i (CIDR e))"

definition validate_provider :: "nat \<Rightarrow> Provider \<Rightarrow> fault list" where
  "validate_provider i p =
     add_if (p_Name p = '''') (ProviderName i) @
     add_if (PTRSuffixes p = []) (ProviderSuffixes i) @
     add_if (p_Domains p = []) (ProviderDomains i)"

definition validate_whitelist :: "nat \<Rightarrow> WhitelistEntry \<Rightarrow> fault list" where
  "validate_whitelist i w =
     add_if (w_Match w = '''') (WhitelistMatchEmpty i) @
     add_if (w_Value w = '''') (WhitelistValueEmpty i) @
     add_if (w_Match w = MatchAddress \<and> CHR ''@'' \<notin> set (w_Value w)) (WhitelistNoAt i (w_Value w))"

definition route_key :: "Route \<Rightarrow> string" where
  "route_key r = r_Match r @ '':'' @ r_Recipient r"

definition validate_route_fields :: "nat \<Rightarrow> Route \<Rightarrow> fault list" where
  "validate_route_fields i r =
     add_if (r_Recipient r = '''') (RouteRecipientEmpty i) @
     add_if (r_TimeoutSec r \<le> 0) (RouteTimeoutRange i) @
     (if r_Type r = RouteCommand then add_if (r_Path r = '''') (RouteNoPath i)
      else if r_Type r = RouteWebhook then
        add_if (\<not> HasPrefix (r_URL r) ''https://'' \<and> \<not> HasPrefix (r_URL r) ''http://'')
          (RouteURL i (r_URL r)) @
        add_if (r_Secret r = '''') (RouteNoSecret i)
      else if r_Type r = RouteForward then
        add_if (r_Host r = '''') (RouteNoHost i) @
        add_if (r_Port r \<le> 0 \<or> r_Port r > 65535) (RoutePort i (r_Port r))
      else [RouteTypeEmpty i])"

text \<open>The loop over the routes, with its index and its set of keys already seen.\<close>

fun validate_routes :: "nat \<Rightarrow> string set \<Rightarrow> Route list \<Rightarrow> fault list" where
  "validate_routes i seen [] = []"
| "validate_routes i seen (r # rs) =
     add_if (route_key r \<in> seen) (RouteDuplicate i (r_Recipient r) (r_Match r)) @
     validate_route_fields i r @
     validate_routes (Suc i) (insert (route_key r) seen) rs"

definition each :: "(nat \<Rightarrow> 'a \<Rightarrow> fault list) \<Rightarrow> 'a list \<Rightarrow> fault list" where
  "each f xs = concat (map (\<lambda>(i, x). f i x) (enumerate 0 xs))"

definition Validate :: "golib \<Rightarrow> Config \<Rightarrow> fault list" where
  "Validate G c =
     add_if (Hostname c = '''') HostnameEmpty @
     add_if (Listeners c = []) NoListeners @
     each (validate_listener G) (Listeners c) @
     add_if (needTLS (Listeners c) \<and> (t_Cert (c_TLS c) = '''' \<or> t_Key (c_TLS c) = '''')) TLSPathsEmpty @
     validate_limits (c_Limits c) (c_DNS c) @
     validate_retry (c_Retry c) @
     each validate_cidr (CIDRWhitelist c) @
     each validate_provider (Providers c) @
     each validate_whitelist (Whitelist c) @
     add_if (Routes c = []) NoRoutes @
     validate_routes 0 {} (Routes c)"

section \<open>Load and LookupRoute\<close>

datatype load_error = OpenError | DecodeError string | Invalid "fault list"

text \<open>The parameter \<open>decode\<close> is \<^verbatim>\<open>os.Open\<close> and the JSON decoder with unknown fields
  refused: the content of the file, an unreadable file, or a decoding error.\<close>

definition Load ::
    "golib \<Rightarrow> (string \<Rightarrow> load_error + Config) \<Rightarrow> string \<Rightarrow> load_error + Config" where
  "Load G decode path =
     (case decode path of
        Inl e \<Rightarrow> Inl e
      | Inr c0 \<Rightarrow>
          (let c = Prepare G c0
           in if Validate G c \<noteq> [] then Inl (Invalid (Validate G c)) else Inr c))"

definition LookupRoute :: "golib \<Rightarrow> Config \<Rightarrow> string \<Rightarrow> Route option" where
  "LookupRoute G c addr0 =
     (let addr = ToLower G addr0
      in case routeExact c addr of
           Some r \<Rightarrow> Some r
         | None \<Rightarrow>
             (case LastIndex addr (CHR ''@'') of
                None \<Rightarrow> None
              | Some at \<Rightarrow> routeDomain c (drop (Suc at) addr)))"

section \<open>Validate accepts exactly the well-formed configurations\<close>

definition listener_ok :: "golib \<Rightarrow> Listener \<Rightarrow> bool" where
  "listener_ok G l \<longleftrightarrow> SplitHostPort G (l_Addr l) \<noteq> None \<and> l_TLS l \<noteq> ''''"

definition limits_ok :: "Limits \<Rightarrow> DNS \<Rightarrow> bool" where
  "limits_ok l d \<longleftrightarrow> 0 < MaxMessageBytes l \<and> 0 < MaxConnections l \<and> 0 < CommandTimeoutSec l \<and>
     0 < SessionTimeoutSec l \<and> 0 < d_TimeoutSec d"

definition retry_ok :: "Retry \<Rightarrow> bool" where
  "retry_ok r \<longleftrightarrow> (Enabled r \<longrightarrow>
     0 < IntervalSec r \<and> IntervalSec r < ExpireSec r \<and> 0 < MaxEntries r \<and> 0 < MaxBytes r)"

definition provider_ok :: "Provider \<Rightarrow> bool" where
  "provider_ok p \<longleftrightarrow> p_Name p \<noteq> '''' \<and> PTRSuffixes p \<noteq> [] \<and> p_Domains p \<noteq> []"

definition whitelist_ok :: "WhitelistEntry \<Rightarrow> bool" where
  "whitelist_ok w \<longleftrightarrow> w_Match w \<noteq> '''' \<and> w_Value w \<noteq> '''' \<and>
     (w_Match w = MatchAddress \<longrightarrow> CHR ''@'' \<in> set (w_Value w))"

definition route_ok :: "Route \<Rightarrow> bool" where
  "route_ok r \<longleftrightarrow> r_Recipient r \<noteq> '''' \<and> 0 < r_TimeoutSec r \<and>
     (r_Type r = RouteCommand \<and> r_Path r \<noteq> '''' \<or>
      r_Type r = RouteWebhook \<and> (HasPrefix (r_URL r) ''https://'' \<or> HasPrefix (r_URL r) ''http://'') \<and>
        r_Secret r \<noteq> '''' \<or>
      r_Type r = RouteForward \<and> r_Host r \<noteq> '''' \<and> 0 < r_Port r \<and> r_Port r \<le> 65535)"

definition config_ok :: "golib \<Rightarrow> Config \<Rightarrow> bool" where
  "config_ok G c \<longleftrightarrow>
     Hostname c \<noteq> '''' \<and> Listeners c \<noteq> [] \<and> Routes c \<noteq> [] \<and>
     (\<forall>l \<in> set (Listeners c). listener_ok G l) \<and>
     ((\<exists>l \<in> set (Listeners c). l_TLS l \<in> {TLSStartTLS, TLSImplicit}) \<longrightarrow>
        t_Cert (c_TLS c) \<noteq> '''' \<and> t_Key (c_TLS c) \<noteq> '''') \<and>
     limits_ok (c_Limits c) (c_DNS c) \<and> retry_ok (c_Retry c) \<and>
     (\<forall>e \<in> set (CIDRWhitelist c). e_Net e \<noteq> None) \<and>
     (\<forall>p \<in> set (Providers c). provider_ok p) \<and>
     (\<forall>w \<in> set (Whitelist c). whitelist_ok w) \<and>
     (\<forall>r \<in> set (Routes c). route_ok r) \<and> distinct (map route_key (Routes c))"

lemma add_if_Nil [simp]: "add_if b f = [] \<longleftrightarrow> \<not> b"
  by (simp add: add_if_def)

lemma each_Nil:
  assumes "\<And>i x. f i x = [] \<longleftrightarrow> P x"
  shows "each f xs = [] \<longleftrightarrow> (\<forall>x \<in> set xs. P x)"
proof -
  have "each f xs = [] \<longleftrightarrow> (\<forall>(i, x) \<in> set (enumerate 0 xs). P x)"
    using assms by (auto simp: each_def)
  also have "\<dots> \<longleftrightarrow> (\<forall>x \<in> snd ` set (enumerate 0 xs). P x)" by auto
  also have "snd ` set (enumerate 0 xs) = set xs"
    by (metis map_snd_enumerate set_map)
  finally show ?thesis .
qed

lemma needTLS_iff: "needTLS ls \<longleftrightarrow> (\<exists>l \<in> set ls. l_TLS l \<in> {TLSStartTLS, TLSImplicit})"
proof -
  have "fold (\<lambda>l b. if l_TLS l = TLSStartTLS \<or> l_TLS l = TLSImplicit then True else b) ls b \<longleftrightarrow>
      b \<or> (\<exists>l \<in> set ls. l_TLS l \<in> {TLSStartTLS, TLSImplicit})" for b
    by (induction ls arbitrary: b) auto
  then show ?thesis by (simp add: needTLS_def)
qed

lemma validate_route_fields_Nil: "validate_route_fields i r = [] \<longleftrightarrow> route_ok r"
  by (auto simp: validate_route_fields_def route_ok_def mode_defs)

lemma validate_routes_Nil:
  "validate_routes i seen rs = [] \<longleftrightarrow>
     (\<forall>r \<in> set rs. route_ok r) \<and> distinct (map route_key rs) \<and> route_key ` set rs \<inter> seen = {}"
  by (induction rs arbitrary: i seen) (auto simp: validate_route_fields_Nil)

lemma validate_listener_Nil: "validate_listener G i l = [] \<longleftrightarrow> listener_ok G l"
  by (auto simp: validate_listener_def listener_ok_def)

lemma validate_cidr_Nil: "validate_cidr i e = [] \<longleftrightarrow> e_Net e \<noteq> None"
  by (auto simp: validate_cidr_def)

lemma validate_provider_Nil: "validate_provider i p = [] \<longleftrightarrow> provider_ok p"
  by (auto simp: validate_provider_def provider_ok_def)

lemma validate_whitelist_Nil: "validate_whitelist i w = [] \<longleftrightarrow> whitelist_ok w"
  by (auto simp: validate_whitelist_def whitelist_ok_def)

lemma validate_limits_Nil: "validate_limits l d = [] \<longleftrightarrow> limits_ok l d"
  by (auto simp: validate_limits_def limits_ok_def)

lemma validate_retry_Nil: "validate_retry r = [] \<longleftrightarrow> retry_ok r"
  by (auto simp: validate_retry_def retry_ok_def)

lemma Validate_Nil: "Validate G c = [] \<longleftrightarrow> config_ok G c"
proof -
  have "each (validate_listener G) (Listeners c) = [] \<longleftrightarrow> (\<forall>l \<in> set (Listeners c). listener_ok G l)"
    "each validate_cidr (CIDRWhitelist c) = [] \<longleftrightarrow> (\<forall>e \<in> set (CIDRWhitelist c). e_Net e \<noteq> None)"
    "each validate_provider (Providers c) = [] \<longleftrightarrow> (\<forall>p \<in> set (Providers c). provider_ok p)"
    "each validate_whitelist (Whitelist c) = [] \<longleftrightarrow> (\<forall>w \<in> set (Whitelist c). whitelist_ok w)"
    by (rule each_Nil, rule validate_listener_Nil validate_cidr_Nil validate_provider_Nil
        validate_whitelist_Nil)+
  then show ?thesis
    unfolding Validate_def config_ok_def append_is_Nil_conv add_if_Nil validate_routes_Nil
      validate_limits_Nil validate_retry_Nil needTLS_iff
    by blast
qed

section \<open>The route tables\<close>

abbreviation routes_of :: "MatchType \<Rightarrow> Route list \<Rightarrow> Route list" where
  "routes_of m rs \<equiv> filter (\<lambda>r. r_Match r = m) rs"

lemma fold_store_route:
  "fst (fold store_route rs t) k =
     (case map_of (rev (map (\<lambda>r. (r_Recipient r, r)) (routes_of MatchAddress rs))) k of
        None \<Rightarrow> fst t k | Some r \<Rightarrow> Some r)"
  "snd (fold store_route rs t) k =
     (case map_of (rev (map (\<lambda>r. (r_Recipient r, r)) (routes_of MatchDomain rs))) k of
        None \<Rightarrow> snd t k | Some r \<Rightarrow> Some r)"
  by (induction rs arbitrary: t)
    (auto simp: store_route_def mode_defs map_add_def split: option.splits)

lemma map_of_distinct_key:
  assumes "distinct (map f rs)"
  shows "map_of (rev (map (\<lambda>r. (f r, r)) rs)) k = Some r \<longleftrightarrow> r \<in> set rs \<and> f r = k"
proof -
  have d: "distinct (map fst (rev (map (\<lambda>r. (f r, r)) rs)))"
    using assms by (simp add: rev_map [symmetric] o_def)
  show ?thesis
    using map_of_eq_Some_iff [OF d, of k r] by auto
qed

lemma distinct_recipients:
  "distinct (map route_key rs) \<Longrightarrow> distinct (map r_Recipient (routes_of m rs))"
  by (induction rs) (force simp: route_key_def)+

definition routed :: "MatchType \<Rightarrow> Config \<Rightarrow> string \<Rightarrow> Route \<Rightarrow> bool" where
  "routed m c k r \<longleftrightarrow> r \<in> set (Routes c) \<and> r_Match r = m \<and> r_Recipient r = k"

lemma Prepare_simps [simp]:
  "Routes (Prepare G c) = map (prepare_route G) (Routes c)"
  "CIDRWhitelist (Prepare G c) = map (prepare_cidr G) (CIDRWhitelist c)"
  "Whitelist (Prepare G c) = map (prepare_whitelist G) (Whitelist c)"
  "Providers (Prepare G c) = map (prepare_provider G) (Providers c)"
  "routeExact (Prepare G c) = fst (fold store_route (Routes (Prepare G c)) (Map.empty, Map.empty))"
  "routeDomain (Prepare G c) = snd (fold store_route (Routes (Prepare G c)) (Map.empty, Map.empty))"
  by (simp_all add: Prepare_def Let_def)

lemma Prepare_tables:
  assumes "c = Prepare G c0" "distinct (map route_key (Routes c))"
  shows "routeExact c k = Some r \<longleftrightarrow> routed MatchAddress c k r"
    and "routeDomain c k = Some r \<longleftrightarrow> routed MatchDomain c k r"
proof -
  have t: "routeExact c = fst (fold store_route (Routes c) (Map.empty, Map.empty))"
    "routeDomain c = snd (fold store_route (Routes c) (Map.empty, Map.empty))"
    by (simp_all add: assms(1) Prepare_def Let_def)
  note d = map_of_distinct_key [OF distinct_recipients [OF assms(2)]]
  show "routeExact c k = Some r \<longleftrightarrow> routed MatchAddress c k r"
    using d [of MatchAddress k r]
    by (auto simp: t fold_store_route routed_def split: option.splits)
  show "routeDomain c k = Some r \<longleftrightarrow> routed MatchDomain c k r"
    using d [of MatchDomain k r]
    by (auto simp: t fold_store_route routed_def split: option.splits)
qed

lemma Load_Inr:
  "Load G decode path = Inr c \<Longrightarrow>
     \<exists>c0. decode path = Inr c0 \<and> c = Prepare G c0 \<and> Validate G c = []"
  by (auto simp: Load_def Let_def split: sum.splits if_splits)

section \<open>Prepare\<close>

text \<open>Every comparison key of a prepared configuration is a lower-case string.\<close>

definition prepared :: "golib \<Rightarrow> Config \<Rightarrow> bool" where
  "prepared G c \<longleftrightarrow>
     (\<forall>e \<in> set (CIDRWhitelist c). ParseCIDR G (CIDR e) \<noteq> None \<longrightarrow> e_Net e = ParseCIDR G (CIDR e)) \<and>
     (\<forall>e \<in> set (CIDRWhitelist c). \<forall>d \<in> set (e_Domains e). \<exists>x. d = ToLower G x) \<and>
     (\<forall>p \<in> set (Providers c). \<forall>d \<in> set (PTRSuffixes p) \<union> set (p_Domains p). \<exists>x. d = ToLower G x) \<and>
     (\<forall>w \<in> set (Whitelist c). \<exists>x. w_Value w = ToLower G x) \<and>
     (\<forall>r \<in> set (Routes c). r_Match r \<noteq> '''' \<and> (\<exists>x. r_Recipient r = ToLower G x))"

lemma prepared_Prepare: "prepared G (Prepare G c)"
  by (auto simp: prepared_def Prepare_def prepare_cidr_def prepare_provider_def
      prepare_whitelist_def prepare_route_def mode_defs Let_def split: option.splits)

lemma map_lower_idem: "lower_idem G \<Longrightarrow> map (ToLower G \<circ> ToLower G) xs = map (ToLower G) xs"
  by (simp add: lower_idem_def)

lemma prepare_route_idem:
  "lower_idem G \<Longrightarrow> prepare_route G (prepare_route G r) = prepare_route G r"
  by (simp add: prepare_route_def lower_idem_def Let_def mode_defs)

lemma prepare_whitelist_idem:
  "lower_idem G \<Longrightarrow> prepare_whitelist G (prepare_whitelist G w) = prepare_whitelist G w"
  by (simp add: prepare_whitelist_def lower_idem_def)

lemma prepare_cidr_idem:
  "lower_idem G \<Longrightarrow> prepare_cidr G (prepare_cidr G e) = prepare_cidr G e"
  by (cases "ParseCIDR G (CIDR e)") (simp_all add: prepare_cidr_def Let_def map_lower_idem)

section \<open>A sample configuration\<close>

text \<open>The values of \<^verbatim>\<open>config.json\<close>, and a library whose parsers know the addresses in it.\<close>

definition sample_lib :: golib where
  "sample_lib =
     \<lparr>mapLower = id, mapUpper = id,
      ParseCIDR = (\<lambda>s. if s = ''10.0.0.0/8'' then Some \<lparr>net_IP = [10, 0, 0, 0], net_Mask = [255, 0, 0, 0]\<rparr>
         else if s = ''203.0.113.44/32''
           then Some \<lparr>net_IP = [203, 0, 113, 44], net_Mask = [255, 255, 255, 255]\<rparr> else None),
      ParseIP = (\<lambda>s. if s = ''10.1.2.3'' then v4InV6Prefix @ [10, 1, 2, 3]
         else if s = ''192.0.2.7'' then v4InV6Prefix @ [192, 0, 2, 7] else []),
      SplitHostPort = (\<lambda>s. if s = '':25'' then Some ('''', ''25'') else if s = '':465'' then Some ('''', ''465'')
         else if s = ''10.1.2.3:40000'' then Some (''10.1.2.3'', ''40000'') else None),
      IPString = (\<lambda>ip. if ip = v4InV6Prefix @ [10, 1, 2, 3] then ''10.1.2.3'' else ''192.0.2.7'')\<rparr>"

definition route_zero :: Route where
  "route_zero = \<lparr>r_Recipient = '''', r_Match = '''', r_Type = '''', r_Path = '''', r_Args = [],
     TempFailExitCode = 0, r_URL = '''', r_Secret = '''', r_Host = '''', r_Port = 0, r_TimeoutSec = 0\<rparr>"

definition sample_config0 :: Config where
  "sample_config0 =
     \<lparr>Hostname = ''filter.example.com'',
      Listeners = [\<lparr>l_Addr = '':25'', l_TLS = TLSStartTLS\<rparr>, \<lparr>l_Addr = '':465'', l_TLS = TLSImplicit\<rparr>],
      c_TLS = \<lparr>t_Cert = ''cert.pem'', t_Key = ''key.pem''\<rparr>,
      c_Limits = \<lparr>MaxMessageBytes = 10485760, MaxConnections = 64, CommandTimeoutSec = 60,
        SessionTimeoutSec = 300\<rparr>,
      c_DNS = \<lparr>d_TimeoutSec = 5, d_Server = ''1.1.1.1:53''\<rparr>,
      c_Retry = \<lparr>Enabled = True, IntervalSec = 60, ExpireSec = 3600, MaxEntries = 500,
        MaxBytes = 268435456\<rparr>,
      CIDRWhitelist =
        [\<lparr>CIDR = ''10.0.0.0/8'', e_Domains = [], e_Net = None\<rparr>,
         \<lparr>CIDR = ''203.0.113.44/32'', e_Domains = [''vendor.example''], e_Net = None\<rparr>],
      Providers = [\<lparr>p_Name = ''google'', PTRSuffixes = [''google.com'', ''googlemail.com''],
        p_Domains = [''gmail.com'', ''googlemail.com''], p_RequireSPF = Some True\<rparr>],
      Whitelist =
        [\<lparr>w_Match = MatchAddress, w_Value = ''alerts@vendor.com'', w_RequireSPF = Some True\<rparr>,
         \<lparr>w_Match = MatchDomain, w_Value = ''partner.example'', w_RequireSPF = Some True\<rparr>,
         \<lparr>w_Match = MatchDomain, w_Value = ''legacy.example'', w_RequireSPF = Some False\<rparr>],
      Routes =
        [route_zero\<lparr>r_Recipient := ''hook@filter.example.com'', r_Match := MatchAddress,
           r_Type := RouteWebhook, r_URL := ''https://internal.example/api/mail'',
           r_Secret := ''change-this'', r_TimeoutSec := 20\<rparr>,
         route_zero\<lparr>r_Recipient := ''run@filter.example.com'', r_Match := MatchAddress,
           r_Type := RouteCommand, r_Path := ''/usr/local/bin/handle'', r_Args := [''--from-smtp''],
           TempFailExitCode := 75, r_TimeoutSec := 30\<rparr>,
         route_zero\<lparr>r_Recipient := ''fwd@filter.example.com'', r_Match := MatchAddress,
           r_Type := RouteForward, r_Host := ''127.0.0.1'', r_Port := 2525, r_TimeoutSec := 30\<rparr>],
      routeExact = Map.empty, routeDomain = Map.empty\<rparr>"

definition sample_config :: Config where
  "sample_config = Prepare sample_lib sample_config0"

lemma sample_Validate: "Validate sample_lib sample_config = []"
  by code_simp

lemma sample_Load: "Load sample_lib (\<lambda>_. Inr sample_config0) ''config.json'' = Inr sample_config"
  using sample_Validate by (simp add: Load_def sample_config_def)

lemma sample_lower: "lower_idem sample_lib"
  by (auto simp: lower_idem_def ToLower_def sample_lib_def)

lemma sample_lookup: "map_option r_Type (LookupRoute sample_lib sample_config ''RUN@Filter.Example.COM'') = Some RouteCommand"
  by code_simp

section \<open>Properties\<close>

text \<open>C17: \<^verbatim>\<open>Validate\<close> reports no fault exactly for the well-formed configurations: every
  listener address parses and has a mode, the certificate and key paths are there when a listener
  encrypts, all limits are positive, the retry expiry exceeds its interval, every network parsed,
  every provider, whitelist entry and route has the fields its type needs, and no two routes share
  recipient and match type.\<close>

theorem Validate_accepts_exactly: "Validate G c = [] \<longleftrightarrow> config_ok G c"
  by (rule Validate_Nil)

text \<open>C18: On a loaded configuration \<^verbatim>\<open>LookupRoute\<close> returns the route of the list whose
  lower-case recipient is the lower-case address and whose match type is \<^verbatim>\<open>address\<close>; only if
  there is none, the domain route of the part after the last at sign; and nothing else.\<close>

theorem LookupRoute_spec:
  assumes "Load G decode path = Inr c"
  shows "LookupRoute G c addr = Some r \<longleftrightarrow>
     routed MatchAddress c (ToLower G addr) r \<or>
     (\<nexists>x. routed MatchAddress c (ToLower G addr) x) \<and>
     (\<exists>l d. ToLower G addr = l @ CHR ''@'' # d \<and> CHR ''@'' \<notin> set d \<and> routed MatchDomain c d r)"
proof -
  obtain c0 where c: "c = Prepare G c0" "Validate G c = []"
    using Load_Inr [OF assms] by blast
  then have "distinct (map route_key (Routes c))"
    by (simp add: Validate_Nil config_ok_def)
  note t = Prepare_tables [OF c(1) this]
  let ?a = "ToLower G addr"
  have "LookupRoute G c addr = Some r \<longleftrightarrow>
      routeExact c ?a = Some r \<or>
      routeExact c ?a = None \<and>
      (\<exists>at. LastIndex ?a (CHR ''@'') = Some at \<and> routeDomain c (drop (Suc at) ?a) = Some r)"
    by (auto simp: LookupRoute_def Let_def split: option.splits)
  also have "routeExact c ?a = None \<longleftrightarrow> (\<nexists>x. routed MatchAddress c ?a x)"
    using t(1) by (metis not_Some_eq)
  finally show ?thesis by (simp only: t LastIndex_after [where P = "\<lambda>d. routed MatchDomain c d r"])
qed

theorem LookupRoute_spec_witness:
  "map_option r_Type (LookupRoute sample_lib sample_config ''RUN@Filter.Example.COM'') = Some RouteCommand \<and>
   (LookupRoute sample_lib sample_config ''run@other.example'' = Some route_zero \<longleftrightarrow>
     routed MatchAddress sample_config (ToLower sample_lib ''run@other.example'') route_zero \<or>
     (\<nexists>x. routed MatchAddress sample_config (ToLower sample_lib ''run@other.example'') x) \<and>
     (\<exists>l d. ToLower sample_lib ''run@other.example'' = l @ CHR ''@'' # d \<and> CHR ''@'' \<notin> set d \<and>
        routed MatchDomain sample_config d route_zero))"
  using sample_lookup LookupRoute_spec [OF sample_Load] by blast

text \<open>C19: A configuration that \<^verbatim>\<open>Load\<close> returns is valid and normalised: networks are parsed,
  every sender domain, suffix, whitelist value and recipient is in lower case, every route has a
  match type.\<close>

theorem Load_ok:
  assumes "Load G decode path = Inr c"
  shows "config_ok G c \<and> prepared G c"
  using Load_Inr [OF assms] prepared_Prepare by (auto simp: Validate_Nil)

theorem Load_ok_witness: "config_ok sample_lib sample_config \<and> prepared sample_lib sample_config"
  by (rule Load_ok [OF sample_Load])

text \<open>Preparing a configuration again changes no route lookup, no network entry and no whitelist
  entry, provided the Unicode lower-case mapping is idempotent.\<close>

lemma Prepare_idem:
  assumes "lower_idem G"
  shows "LookupRoute G (Prepare G (Prepare G c)) = LookupRoute G (Prepare G c) \<and>
     CIDRWhitelist (Prepare G (Prepare G c)) = CIDRWhitelist (Prepare G c) \<and>
     Whitelist (Prepare G (Prepare G c)) = Whitelist (Prepare G c)"
proof -
  note idem = prepare_route_idem [OF assms] prepare_cidr_idem [OF assms]
    prepare_whitelist_idem [OF assms]
  have r: "Routes (Prepare G (Prepare G c)) = Routes (Prepare G c)"
    by (simp add: idem)
  have "LookupRoute G (Prepare G (Prepare G c)) = LookupRoute G (Prepare G c)"
    unfolding LookupRoute_def Prepare_simps(5,6) r by (rule refl)
  then show ?thesis by (simp add: idem)
qed

text \<open>In a valid configuration whose times are at most 9223372036 seconds, every duration is the
  configured number of seconds, and the retry interval is positive and below the expiry.\<close>

lemma durations_exact:
  assumes "Validate G c = []"
    and "CommandTimeoutSec (c_Limits c) \<le> 9223372036" "SessionTimeoutSec (c_Limits c) \<le> 9223372036"
      "d_TimeoutSec (c_DNS c) \<le> 9223372036"
      "Enabled (c_Retry c)" "ExpireSec (c_Retry c) \<le> 9223372036"
  shows "CommandTimeout (c_Limits c) = CommandTimeoutSec (c_Limits c) * 1000000000 \<and>
     SessionTimeout (c_Limits c) = SessionTimeoutSec (c_Limits c) * 1000000000 \<and>
     DNSTimeout (c_DNS c) = d_TimeoutSec (c_DNS c) * 1000000000 \<and>
     0 < Interval (c_Retry c) \<and> Interval (c_Retry c) < Expire (c_Retry c)"
  using assms
  by (auto simp: Validate_Nil config_ok_def limits_ok_def retry_ok_def seconds_exact
      CommandTimeout_def SessionTimeout_def DNSTimeout_def Interval_def Expire_def)

text \<open>C39: Beyond that bound \<^verbatim>\<open>Validate\<close> still accepts: any valid configuration with retry
  enabled stays valid with an interval of 9223372037 seconds, whose duration wraps to a negative
  number (on which \<^verbatim>\<open>time.NewTicker\<close> panics).\<close>

theorem Validate_accepts_wrapped_interval:
  assumes "Validate G c = []" "Enabled (c_Retry c)"
  shows "Validate G (c\<lparr>c_Retry := (c_Retry c)\<lparr>IntervalSec := 9223372037, ExpireSec := 9223372038\<rparr>\<rparr>) = [] \<and>
     Interval ((c_Retry c)\<lparr>IntervalSec := 9223372037, ExpireSec := 9223372038\<rparr>) < 0"
  using assms
  by (auto simp: Validate_Nil config_ok_def retry_ok_def Interval_def seconds_def wrap64_def)

theorem Validate_accepts_wrapped_interval_witness:
  "Validate sample_lib (sample_config\<lparr>c_Retry := (c_Retry sample_config)
     \<lparr>IntervalSec := 9223372037, ExpireSec := 9223372038\<rparr>\<rparr>) = [] \<and>
   Interval ((c_Retry sample_config)\<lparr>IntervalSec := 9223372037, ExpireSec := 9223372038\<rparr>) < 0"
  by (rule Validate_accepts_wrapped_interval [OF sample_Validate])
    (simp add: sample_config_def Prepare_def sample_config0_def Let_def)

end
