(* ===== verification/Policy.thy ===== *)
theory Policy
  imports Config
begin

text \<open>
  The admission decision, \<^verbatim>\<open>internal/policy/policy.go\<close>: rules A to D in their fixed order,
  forward-confirmed reverse DNS, the SPF result table and the matching of names.

  The resolver is an interface of the source and a record of three operations here. Each takes the
  state of the world and returns the world after the query, so that a decision that makes no query
  is one that leaves the world unchanged, for every resolver. A DNS error is \<^const>\<open>None\<close>; the
  context deadline is part of the resolver.
\<close>

type_synonym SPFResult = string

definition SPFPass :: SPFResult where [mode_defs]: "SPFPass = ''PASS''"
definition SPFFail :: SPFResult where [mode_defs]: "SPFFail = ''FAIL''"
definition SPFSoftFail :: SPFResult where [mode_defs]: "SPFSoftFail = ''SOFTFAIL''"
definition SPFNeutral :: SPFResult where [mode_defs]: "SPFNeutral = ''NEUTRAL''"
definition SPFNone :: SPFResult where [mode_defs]: "SPFNone = ''NONE''"
definition SPFTempError :: SPFResult where [mode_defs]: "SPFTempError = ''TEMPERROR''"
definition SPFPermError :: SPFResult where [mode_defs]: "SPFPermError = ''PERMERROR''"
definition SPFSkipped :: SPFResult where [mode_defs]: "SPFSkipped = ''SKIPPED''"

record 'w Resolver =
  LookupAddr :: "string \<Rightarrow> 'w \<Rightarrow> string list option \<times> 'w"
  LookupIPAddr :: "string \<Rightarrow> 'w \<Rightarrow> 8 word list list option \<times> 'w"
  CheckSPF :: "8 word list \<Rightarrow> string \<Rightarrow> string \<Rightarrow> 'w \<Rightarrow> SPFResult \<times> 'w"

datatype Outcome = Admit | RejectPermanent | RejectTemporary

record Decision =
  d_Outcome :: Outcome
  d_Rule :: string
  d_SPF :: SPFResult
  d_PTRName :: string
  d_Reason :: string

text \<open>The zero value of the structure, which a composite literal starts from.\<close>

definition decision_zero :: Decision where
  "decision_zero = \<lparr>d_Outcome = Admit, d_Rule = '''', d_SPF = '''', d_PTRName = '''', d_Reason = ''''\<rparr>"

definition DomainOf :: "golib \<Rightarrow> string \<Rightarrow> string" where
  "DomainOf G addr =
     (case LastIndex addr (CHR ''@'') of
        None \<Rightarrow> ''''
      | Some at \<Rightarrow> ToLower G (drop (Suc at) addr))"

fun contains :: "string list \<Rightarrow> string \<Rightarrow> bool" where
  "contains [] v = False"
| "contains (s # ss) v = (if s = v then True else contains ss v)"

fun suffixMatch :: "string \<Rightarrow> string list \<Rightarrow> bool" where
  "suffixMatch name [] = False"
| "suffixMatch name (s # ss) =
     (if name = s \<or> HasSuffix name (''.'' @ s) then True else suffixMatch name ss)"

definition whitelistMatch :: "WhitelistEntry \<Rightarrow> string \<Rightarrow> string \<Rightarrow> bool" where
  "whitelistMatch w sender domain =
     (if w_Match w = MatchAddress then sender = w_Value w
      else if w_Match w = MatchDomain then domain = w_Value w \<or> HasSuffix domain (''.'' @ w_Value w)
      else False)"

definition mapSPF :: "SPFResult \<Rightarrow> Decision" where
  "mapSPF res =
     (if res = SPFPass then decision_zero\<lparr>d_Outcome := Admit, d_SPF := res\<rparr>
      else if res = SPFTempError then
        decision_zero\<lparr>d_Outcome := RejectTemporary, d_SPF := res, d_Reason := ''spf temporary error''\<rparr>
      else decision_zero\<lparr>d_Outcome := RejectPermanent, d_SPF := res, d_Reason := ''spf result '' @ res\<rparr>)"

text \<open>The loop over the names of the PTR answer. The inner loop over the addresses asks whether one
  equals the peer.\<close>

fun fcrdns_loop ::
    "golib \<Rightarrow> 'w Resolver \<Rightarrow> 8 word list \<Rightarrow> string list \<Rightarrow> 'w \<Rightarrow> (string \<times> bool) \<times> 'w" where
  "fcrdns_loop G R ip [] w = (('''', False), w)"
| "fcrdns_loop G R ip (n0 # ns) w =
     (let n = ToLower G (TrimSuffix n0 ''.'')
      in case LookupIPAddr R n w of
           (None, w') \<Rightarrow> fcrdns_loop G R ip ns w'
         | (Some addrs, w') \<Rightarrow>
             if list_ex (\<lambda>a. IP_Equal a ip) addrs then ((n, True), w')
             else fcrdns_loop G R ip ns w')"

definition FCrDNS :: "golib \<Rightarrow> 'w Resolver \<Rightarrow> 8 word list \<Rightarrow> 'w \<Rightarrow> (string \<times> bool) \<times> 'w" where
  "FCrDNS G R ip w =
     (case LookupAddr R (IPString G ip) w of
        (None, w') \<Rightarrow> (('''', False), w')
      | (Some names, w') \<Rightarrow>
          if names = [] then (('''', False), w') else fcrdns_loop G R ip names w')"

fun ruleA :: "8 word list \<Rightarrow> string \<Rightarrow> CIDREntry list \<Rightarrow> Decision option" where
  "ruleA ip domain [] = None"
| "ruleA ip domain (e # es) =
     (case e_Net e of
        None \<Rightarrow> ruleA ip domain es
      | Some n \<Rightarrow>
          if \<not> IPNet_Contains n ip then ruleA ip domain es
          else if e_Domains e \<noteq> [] \<and> \<not> contains (e_Domains e) domain then ruleA ip domain es
          else Some (decision_zero\<lparr>d_Outcome := Admit, d_Rule := ''cidr'', d_SPF := SPFSkipped\<rparr>))"

fun ruleB ::
    "'w Resolver \<Rightarrow> 8 word list \<Rightarrow> string \<Rightarrow> string \<Rightarrow> string \<Rightarrow> Provider list \<Rightarrow> 'w \<Rightarrow> Decision option \<times> 'w" where
  "ruleB R ip sender domain name [] w = (None, w)"
| "ruleB R ip sender domain name (p # ps) w =
     (if \<not> suffixMatch name (PTRSuffixes p) then ruleB R ip sender domain name ps w
      else if \<not> contains (p_Domains p) domain then ruleB R ip sender domain name ps w
      else if \<not> p_SPFRequired p then
        (Some (decision_zero\<lparr>d_Outcome := Admit, d_Rule := ''provider:'' @ p_Name p,
           d_SPF := SPFSkipped, d_PTRName := name\<rparr>), w)
      else (case CheckSPF R ip domain sender w of
              (res, w') \<Rightarrow>
                (Some ((mapSPF res)\<lparr>d_Rule := ''provider:'' @ p_Name p, d_PTRName := name\<rparr>), w')))"

fun ruleC ::
    "'w Resolver \<Rightarrow> 8 word list \<Rightarrow> string \<Rightarrow> string \<Rightarrow> WhitelistEntry list \<Rightarrow> 'w \<Rightarrow> Decision option \<times> 'w" where
  "ruleC R ip sender domain [] w = (None, w)"
| "ruleC R ip sender domain (e # es) w =
     (if \<not> whitelistMatch e sender domain then ruleC R ip sender domain es w
      else if \<not> w_SPFRequired e then
        (Some (decision_zero\<lparr>d_Outcome := Admit, d_Rule := ''whitelist:'' @ w_Value e,
           d_SPF := SPFSkipped\<rparr>), w)
      else (case CheckSPF R ip domain sender w of
              (res, w') \<Rightarrow> (Some ((mapSPF res)\<lparr>d_Rule := ''whitelist:'' @ w_Value e\<rparr>), w')))"

definition ruleD :: Decision where
  "ruleD = decision_zero\<lparr>d_Outcome := RejectPermanent, d_Rule := ''default'',
     d_Reason := ''sender not whitelisted''\<rparr>"

definition Decide ::
    "golib \<Rightarrow> 'w Resolver \<Rightarrow> Config \<Rightarrow> 8 word list \<Rightarrow> string \<Rightarrow> 'w \<Rightarrow> Decision \<times> 'w" where
  "Decide G R cfg ip reversePath w0 =
     (let sender = ToLower G (TrimSpace reversePath); domain = DomainOf G sender
      in case ruleA ip domain (CIDRWhitelist cfg) of
           Some d \<Rightarrow> (d, w0)
         | None \<Rightarrow>
             (case (if Providers cfg \<noteq> [] then
                      (case FCrDNS G R ip w0 of
                         ((name, ok), w1) \<Rightarrow>
                           if ok then ruleB R ip sender domain name (Providers cfg) w1 else (None, w1))
                    else (None, w0)) of
                (Some d, w2) \<Rightarrow> (d, w2)
              | (None, w2) \<Rightarrow>
                  (case ruleC R ip sender domain (Whitelist cfg) w2 of
                     (Some d, w3) \<Rightarrow> (d, w3)
                   | (None, w3) \<Rightarrow> (ruleD, w3))))"

section \<open>The loops as searches\<close>

lemma contains_iff [simp]: "contains xs v \<longleftrightarrow> v \<in> set xs"
  by (induction xs) auto

lemma suffixMatch_iff:
  "suffixMatch name ss \<longleftrightarrow> (\<exists>s \<in> set ss. name = s \<or> (\<exists>p. name = p @ CHR ''.'' # s))"
  by (induction ss) (auto simp: HasSuffix_iff)

definition cidr_hit :: "8 word list \<Rightarrow> string \<Rightarrow> CIDREntry \<Rightarrow> bool" where
  "cidr_hit ip domain e \<longleftrightarrow>
     (\<exists>n. e_Net e = Some n \<and> IPNet_Contains n ip) \<and> (e_Domains e = [] \<or> domain \<in> set (e_Domains e))"

definition provider_hit :: "string \<Rightarrow> string \<Rightarrow> Provider \<Rightarrow> bool" where
  "provider_hit name domain p \<longleftrightarrow> suffixMatch name (PTRSuffixes p) \<and> domain \<in> set (p_Domains p)"

lemma ruleA_find:
  "ruleA ip domain es =
     map_option (\<lambda>_. decision_zero\<lparr>d_Outcome := Admit, d_Rule := ''cidr'', d_SPF := SPFSkipped\<rparr>)
       (find (cidr_hit ip domain) es)"
  by (induction es) (auto simp: cidr_hit_def split: option.splits)

text \<open>What rules B and C do with the entry they found: SPF decides unless the entry waives it.\<close>

definition spf_decision ::
    "'w Resolver \<Rightarrow> bool \<Rightarrow> 8 word list \<Rightarrow> string \<Rightarrow> string \<Rightarrow> string \<Rightarrow> string \<Rightarrow> 'w \<Rightarrow> Decision \<times> 'w" where
  "spf_decision R required ip sender domain rule name w =
     (if required then
        (case CheckSPF R ip domain sender w of
           (res, w') \<Rightarrow> ((mapSPF res)\<lparr>d_Rule := rule, d_PTRName := name\<rparr>, w'))
      else (decision_zero\<lparr>d_Outcome := Admit, d_Rule := rule, d_SPF := SPFSkipped, d_PTRName := name\<rparr>, w))"

lemma mapSPF_ptr [simp]: "d_PTRName (mapSPF res) = ''''"
  by (simp add: mapSPF_def decision_zero_def)

lemma mapSPF_rule_ptr [simp]: "(mapSPF res)\<lparr>d_Rule := x, d_PTRName := ''''\<rparr> = (mapSPF res)\<lparr>d_Rule := x\<rparr>"
  by (simp add: mapSPF_def decision_zero_def)

lemma ruleB_find:
  "ruleB R ip sender domain name ps w =
     (case find (provider_hit name domain) ps of
        None \<Rightarrow> (None, w)
      | Some p \<Rightarrow> apfst Some
          (spf_decision R (p_SPFRequired p) ip sender domain (''provider:'' @ p_Name p) name w))"
  by (induction ps) (auto simp: provider_hit_def spf_decision_def split: prod.splits)

lemma ruleC_find:
  "ruleC R ip sender domain es w =
     (case find (\<lambda>e. whitelistMatch e sender domain) es of
        None \<Rightarrow> (None, w)
      | Some e \<Rightarrow> apfst Some
          (spf_decision R (w_SPFRequired e) ip sender domain (''whitelist:'' @ w_Value e) '''' w))"
  by (induction es) (auto simp: spf_decision_def decision_zero_def split: prod.splits)

section \<open>The decision as a specification\<close>

text \<open>The first network entry that matches; otherwise the first provider of the confirmed name;
  otherwise the first whitelist entry; otherwise the refusal.\<close>

definition decide_spec ::
    "golib \<Rightarrow> 'w Resolver \<Rightarrow> Config \<Rightarrow> 8 word list \<Rightarrow> string \<Rightarrow> 'w \<Rightarrow> Decision \<times> 'w" where
  "decide_spec G R cfg ip sender w =
     (let domain = DomainOf G sender;
          ((name, ok), w1) = (if Providers cfg = [] then (('''', False), w) else FCrDNS G R ip w);
          provider = (if ok then find (provider_hit name domain) (Providers cfg) else None)
      in if list_ex (cidr_hit ip domain) (CIDRWhitelist cfg)
         then (decision_zero\<lparr>d_Outcome := Admit, d_Rule := ''cidr'', d_SPF := SPFSkipped\<rparr>, w)
         else case provider of
           Some p \<Rightarrow> spf_decision R (p_SPFRequired p) ip sender domain (''provider:'' @ p_Name p) name w1
         | None \<Rightarrow>
             (case find (\<lambda>e. whitelistMatch e sender domain) (Whitelist cfg) of
                Some e \<Rightarrow>
                  spf_decision R (w_SPFRequired e) ip sender domain (''whitelist:'' @ w_Value e) '''' w1
              | None \<Rightarrow> (ruleD, w1)))"

lemma find_list_ex: "find P xs = None \<longleftrightarrow> \<not> list_ex P xs"
  by (induction xs) auto

lemma Decide_eq_spec:
  "Decide G R cfg ip path w = decide_spec G R cfg ip (ToLower G (TrimSpace path)) w"
proof -
  define sender where "sender = ToLower G (TrimSpace path)"
  define domn where "domn = DomainOf G sender"
  obtain name ok w1 where f: "FCrDNS G R ip w = ((name, ok), w1)" by (metis prod.collapse)
  show ?thesis
  proof (cases "list_ex (cidr_hit ip domn) (CIDRWhitelist cfg)")
    case True
    then obtain e where "find (cidr_hit ip domn) (CIDRWhitelist cfg) = Some e"
      by (metis find_list_ex not_Some_eq)
    with True f show ?thesis
      by (simp add: Decide_def decide_spec_def ruleA_find Let_def sender_def [symmetric] domn_def [symmetric])
  next
    case False
    then have "find (cidr_hit ip domn) (CIDRWhitelist cfg) = None"
      by (simp add: find_list_ex)
    with False f show ?thesis
      by (simp add: Decide_def decide_spec_def ruleA_find ruleB_find ruleC_find apfst_def map_prod_def Let_def
          sender_def [symmetric] domn_def [symmetric] split: option.splits prod.splits)
  qed
qed

lemma spf_decision_Admit:
  "d_Outcome (fst (spf_decision R req ip sender domn rule name w)) = Admit \<longleftrightarrow>
     (req \<longrightarrow> fst (CheckSPF R ip domn sender w) = SPFPass)"
  by (auto simp: spf_decision_def mapSPF_def decision_zero_def mode_defs split: prod.splits)

lemma fcrdns_loop_True:
  "fcrdns_loop G R ip ns w = ((n, True), w') \<Longrightarrow>
     \<exists>x \<in> set ns. n = ToLower G (TrimSuffix x ''.'') \<and>
       (\<exists>v addrs. fst (LookupIPAddr R n v) = Some addrs \<and> (\<exists>a \<in> set addrs. IP_Equal a ip))"
proof (induction ns arbitrary: w)
  case (Cons x ns)
  let ?n = "ToLower G (TrimSuffix x ''.'')"
  obtain ans w1 where l: "LookupIPAddr R ?n w = (ans, w1)" by fastforce
  show ?case
  proof (cases "\<exists>addrs. ans = Some addrs \<and> list_ex (\<lambda>a. IP_Equal a ip) addrs")
    case True
    with Cons.prems l have "n = ?n" "\<exists>addrs. fst (LookupIPAddr R ?n w) = Some addrs \<and> (\<exists>a \<in> set addrs. IP_Equal a ip)"
      by (auto simp: Let_def list_ex_iff split: if_splits)
    then show ?thesis by auto
  next
    case False
    with Cons.prems l have "fcrdns_loop G R ip ns w1 = ((n, True), w')"
      by (cases ans) (auto simp: Let_def)
    with Cons.IH show ?thesis by auto
  qed
qed simp

text \<open>A name is confirmed for an address when the PTR answer holds it (less a final dot, in lower
  case) and its forward answer holds the address.\<close>

definition confirmed :: "golib \<Rightarrow> 'w Resolver \<Rightarrow> 8 word list \<Rightarrow> string \<Rightarrow> bool" where
  "confirmed G R ip n \<longleftrightarrow>
     (\<exists>v names. fst (LookupAddr R (IPString G ip) v) = Some names \<and>
        (\<exists>x \<in> set names. n = ToLower G (TrimSuffix x ''.''))) \<and>
     (\<exists>v addrs. fst (LookupIPAddr R n v) = Some addrs \<and> (\<exists>a \<in> set addrs. IP_Equal a ip))"

lemma FCrDNS_confirmed: "FCrDNS G R ip w = ((n, True), w') \<Longrightarrow> confirmed G R ip n"
  by (auto simp: FCrDNS_def confirmed_def split: prod.splits option.splits if_splits
      dest!: fcrdns_loop_True) (metis fst_conv)+

text \<open>Who may send: the sender identity an admission rests on.\<close>

definition authorised :: "golib \<Rightarrow> 'w Resolver \<Rightarrow> Config \<Rightarrow> 8 word list \<Rightarrow> string \<Rightarrow> bool" where
  "authorised G R cfg ip path \<longleftrightarrow>
     (let sender = ToLower G (TrimSpace path); domain = DomainOf G sender;
          pass = (\<exists>v. fst (CheckSPF R ip domain sender v) = SPFPass)
      in (\<exists>e \<in> set (CIDRWhitelist cfg). cidr_hit ip domain e) \<or>
         (\<exists>p \<in> set (Providers cfg). \<exists>name. confirmed G R ip name \<and> provider_hit name domain p \<and>
            (p_SPFRequired p \<longrightarrow> pass)) \<or>
         (\<exists>e \<in> set (Whitelist cfg). whitelistMatch e sender domain \<and> (w_SPFRequired e \<longrightarrow> pass)))"

lemma find_Some_in: "find P xs = Some x \<Longrightarrow> x \<in> set xs \<and> P x"
  by (induction xs) (auto split: if_splits)

lemma Decide_Admit:
  assumes "Decide G R cfg ip path w = (d, w')" "d_Outcome d = Admit"
  shows "authorised G R cfg ip path"
proof -
  define sender where "sender = ToLower G (TrimSpace path)"
  define domn where "domn = DomainOf G sender"
  obtain name ok w1 where f: "(if Providers cfg = [] then (('''', False), w) else FCrDNS G R ip w) = ((name, ok), w1)"
    by (metis prod.collapse)
  have spec: "decide_spec G R cfg ip sender w = (d, w')"
    using assms(1) by (simp add: Decide_eq_spec sender_def)
  consider (A) "list_ex (cidr_hit ip domn) (CIDRWhitelist cfg)"
    | (B) p where "ok" "find (provider_hit name domn) (Providers cfg) = Some p"
        "spf_decision R (p_SPFRequired p) ip sender domn (''provider:'' @ p_Name p) name w1 = (d, w')"
    | (C) e where "find (\<lambda>e. whitelistMatch e sender domn) (Whitelist cfg) = Some e"
        "spf_decision R (w_SPFRequired e) ip sender domn (''whitelist:'' @ w_Value e) '''' w1 = (d, w')"
    | (D) "d = ruleD"
    using spec by (auto simp: decide_spec_def domn_def f Let_def split: if_splits option.splits)
  then show ?thesis
  proof cases
    case A
    then show ?thesis
      by (simp add: authorised_def sender_def [symmetric] domn_def [symmetric] list_ex_iff)
  next
    case B
    then have "confirmed G R ip name"
      using f FCrDNS_confirmed [of G R ip w name w1] by (auto split: if_splits)
    with B find_Some_in [OF B(2)] spf_decision_Admit [of R "p_SPFRequired p" ip sender domn] assms(2)
    show ?thesis
      by (simp add: authorised_def sender_def [symmetric] domn_def [symmetric]) (metis fst_conv)
  next
    case C
    with find_Some_in [OF C(1)] spf_decision_Admit [of R "w_SPFRequired e" ip sender domn] assms(2)
    show ?thesis
      by (simp add: authorised_def sender_def [symmetric] domn_def [symmetric]) (metis fst_conv)
  next
    case D
    with assms(2) show ?thesis by (simp add: ruleD_def decision_zero_def)
  qed
qed

section \<open>Sample resolvers\<close>

text \<open>A resolver whose world is the list of queries it answered: 192.0.2.7 is confirmed as
  \<^verbatim>\<open>mail-a.google.com\<close> and every sender domain passes SPF.\<close>

definition sample_resolver :: "string list Resolver" where
  "sample_resolver =
     \<lparr>LookupAddr = (\<lambda>a w. (if a = ''192.0.2.7'' then Some [''Mail-A.Google.com.''] else None, w @ [a])),
      LookupIPAddr = (\<lambda>h w. (if h = ''mail-a.google.com'' then Some [[192, 0, 2, 7]] else None, w @ [h])),
      CheckSPF = (\<lambda>ip d s w. (SPFPass, w @ [d]))\<rparr>"

text \<open>A resolver that answers no query.\<close>

definition failing_resolver :: "string list Resolver" where
  "failing_resolver =
     \<lparr>LookupAddr = (\<lambda>a w. (None, w @ [a])), LookupIPAddr = (\<lambda>h w. (None, w @ [h])),
      CheckSPF = (\<lambda>ip d s w. (SPFTempError, w @ [d]))\<rparr>"

section \<open>Properties\<close>

text \<open>C5: Whatever the resolver answers, a sender is admitted only if the peer is in a configured
  network that allows its domain; or the peer's name is confirmed by a forward lookup, is a
  subdomain of a provider's suffix, the sender domain is one of the provider's, and SPF passed
  unless waived; or the sender matches a whitelist entry and SPF passed unless waived.\<close>

theorem Decide_admits_only_authorised:
  assumes "Decide G R cfg ip path w = (d, w')" "d_Outcome d = Admit"
  shows "authorised G R cfg ip path"
  using assms by (rule Decide_Admit)

theorem Decide_admits_only_authorised_witness:
  "authorised sample_lib sample_resolver sample_config (v4InV6Prefix @ [192, 0, 2, 7]) ''bob@Gmail.com''"
proof (rule Decide_admits_only_authorised)
  let ?D = "Decide sample_lib sample_resolver sample_config (v4InV6Prefix @ [192, 0, 2, 7]) ''bob@Gmail.com'' []"
  show "?D = (fst ?D, snd ?D)" by simp
  show "d_Outcome (fst ?D) = Admit" by code_simp
qed

text \<open>C8: \<^verbatim>\<open>Decide\<close> is the rule table: the first matching network admits without any query;
  otherwise the first provider that the confirmed name and the sender domain select, otherwise
  the first whitelist entry that matches, decides by SPF unless it waives it; otherwise the sender
  is refused permanently.\<close>

theorem Decide_is_rule_table:
  "Decide G R cfg ip path w = decide_spec G R cfg ip (ToLower G (TrimSpace path)) w"
  by (rule Decide_eq_spec)

text \<open>A peer in a configured network is admitted with SPF skipped and without a single DNS or SPF
  query: the state of the world is unchanged for every resolver.\<close>

lemma Decide_network_no_query:
  assumes "e \<in> set (CIDRWhitelist cfg)" "e_Net e = Some n" "IPNet_Contains n ip"
    "e_Domains e = [] \<or> DomainOf G (ToLower G (TrimSpace path)) \<in> set (e_Domains e)"
  shows "\<exists>d. Decide G R cfg ip path w = (d, w) \<and> d_Outcome d = Admit \<and> d_SPF d = SPFSkipped"
proof -
  have "list_ex (cidr_hit ip (DomainOf G (ToLower G (TrimSpace path)))) (CIDRWhitelist cfg)"
    using assms by (auto simp: list_ex_iff cidr_hit_def)
  then show ?thesis
    by (simp add: Decide_eq_spec decide_spec_def Let_def decision_zero_def split: prod.splits)
qed

text \<open>A name matches a suffix list only on a dot boundary: it is one of the suffixes, or one of
  them after a dot. So \<^verbatim>\<open>notgoogle.com\<close> does not match \<^verbatim>\<open>google.com\<close>.\<close>

lemma suffixMatch_boundary:
  "(suffixMatch name ss \<longleftrightarrow> (\<exists>s \<in> set ss. name = s \<or> (\<exists>p. name = p @ CHR ''.'' # s))) \<and>
   \<not> suffixMatch ''notgoogle.com'' [''google.com'']"
  by (simp add: suffixMatch_iff [symmetric]) code_simp

text \<open>The SPF table: only a pass admits, only a temporary error gives a temporary rejection, and
  every other result, known or not, is a permanent rejection that names the result.\<close>

lemma mapSPF_table:
  "(d_Outcome (mapSPF r) = Admit \<longleftrightarrow> r = SPFPass) \<and>
   (d_Outcome (mapSPF r) = RejectTemporary \<longleftrightarrow> r = SPFTempError) \<and>
   (d_Outcome (mapSPF r) = RejectPermanent \<longleftrightarrow> r \<notin> {SPFPass, SPFTempError}) \<and>
   (d_Outcome (mapSPF r) = RejectPermanent \<longrightarrow> d_Reason (mapSPF r) = ''spf result '' @ r) \<and>
   d_SPF (mapSPF r) = r"
  by (simp add: mapSPF_def decision_zero_def mode_defs)

text \<open>C37: When the PTR query fails and neither a network nor a whitelist entry matches, the sender is
  refused permanently, even though the failure may be transient.\<close>

theorem Decide_ptr_failure_permanent:
  assumes "fst (LookupAddr R (IPString G ip) w) = None"
    and "sender = ToLower G (TrimSpace path)" "domain = DomainOf G sender"
    and "\<And>e. e \<in> set (CIDRWhitelist cfg) \<Longrightarrow> \<not> cidr_hit ip domain e"
    and "\<And>e. e \<in> set (Whitelist cfg) \<Longrightarrow> \<not> whitelistMatch e sender domain"
  shows "d_Outcome (fst (Decide G R cfg ip path w)) = RejectPermanent"
proof -
  have "\<not> list_ex (cidr_hit ip domain) (CIDRWhitelist cfg)"
    "find (\<lambda>e. whitelistMatch e sender domain) (Whitelist cfg) = None"
    using assms(4,5) by (auto simp: list_ex_iff find_None_iff)
  with assms(1-3) show ?thesis
    by (auto simp: Decide_eq_spec decide_spec_def Let_def FCrDNS_def ruleD_def decision_zero_def
        split: prod.splits option.splits)
qed

theorem Decide_ptr_failure_permanent_witness:
  "d_Outcome (fst (Decide sample_lib failing_resolver sample_config (v4InV6Prefix @ [192, 0, 2, 7])
     ''bob@gmail.com'' [])) = RejectPermanent"
proof (rule Decide_ptr_failure_permanent [OF _ refl refl])
  let ?s = "ToLower sample_lib (TrimSpace ''bob@gmail.com'')"
  let ?ip = "v4InV6Prefix @ [192, 0, 2, 7]"
  show "fst (LookupAddr failing_resolver (IPString sample_lib ?ip) []) = None"
    by (simp add: failing_resolver_def)
  have "ruleA ?ip (DomainOf sample_lib ?s) (CIDRWhitelist sample_config) = None" by code_simp
  then show "\<not> cidr_hit ?ip (DomainOf sample_lib ?s) e" if "e \<in> set (CIDRWhitelist sample_config)" for e
    using that by (auto simp: ruleA_find find_None_iff)
  have "\<not> list_ex (\<lambda>e. whitelistMatch e ?s (DomainOf sample_lib ?s)) (Whitelist sample_config)" by code_simp
  then show "\<not> whitelistMatch e ?s (DomainOf sample_lib ?s)" if "e \<in> set (Whitelist sample_config)" for e
    using that by (auto simp: list_ex_iff)
qed

end
