(* ===== verification/Msg.thy ===== *)
theory Msg
  imports Config
begin

text \<open>
  The message component, \<^verbatim>\<open>internal/msg/msg.go\<close>: the result of a disposition attempt, the
  message and the dispatcher interface.

  A \<^verbatim>\<open>*Message\<close> is compared by address in the queue, so the record carries its address
  \<open>m_id\<close>; a message is not written after it is built, so the pointer and its content are one value.
  A dispatcher takes the time-out of its context, the message and the state of the world, and returns
  the result, an error for the log and the world after the attempt. A clock reads the world.
\<close>

datatype Result = ResultOK | ResultTempFail | ResultPermFail | ResultQueued

definition Result_String :: "Result \<Rightarrow> string" where
  "Result_String r = (case r of ResultOK \<Rightarrow> ''ok'' | ResultTempFail \<Rightarrow> ''tempfail''
     | ResultPermFail \<Rightarrow> ''permfail'' | ResultQueued \<Rightarrow> ''queued'')"

record Message =
  m_id :: nat
  m_From :: string
  m_To :: string
  m_Route :: "Route option"
  m_Body :: string
  m_PeerIP :: "8 word list"
  m_Received :: int

text \<open>The errors the dispositions return, one constructor for each place that makes one.\<close>

datatype goerr =
    ErrNoRoute | ErrUnknownRouteType string
  | ErrCommandTimeout | ErrCommandExitTemporary int | ErrCommandExit int | ErrCommandStart
  | ErrBuildRequest | ErrPost | ErrHTTPStatus int
  | ErrDial string | ErrTransport | ErrShortReply string | ErrBadReply string
  | ErrTargetReplied string | ErrWriteBody

type_synonym 'w clock = "'w \<Rightarrow> int \<times> 'w"
type_synonym 'w dispatcher = "int \<Rightarrow> Message \<Rightarrow> 'w \<Rightarrow> (Result \<times> goerr option) \<times> 'w"

definition StubDispatch :: "'w dispatcher" where
  "StubDispatch ctx m w = ((ResultOK, None), w)"

lemma Result_String_inj: "Result_String r = Result_String r' \<longleftrightarrow> r = r'"
  by (cases r; cases r') (simp_all add: Result_String_def)

end
