(* ===== verification/Wire.thy ===== *)
theory Wire
  imports Prelude
begin

text \<open>
  The octet level of the SMTP server, the functions of \<^verbatim>\<open>internal/server/session.go\<close> and
  \<^verbatim>\<open>transaction.go\<close> that keep no session state: replies and their numerals, command
  lines, addresses, and the reading of lines and of the message body.

  A buffered reader is the list of the octets that will arrive before the stream ends, and the error
  at its end (end of file, or a deadline or transport fault). The deadline that
  \<^verbatim>\<open>readBody\<close> sets before each line is in the theory of the session; here is the turn of
  its loop that follows, and the loop under deadlines that have not passed.
\<close>

section \<open>Replies\<close>

text \<open>The loop of \<^verbatim>\<open>itoa\<close> fills its 20 octets from the end; the second argument is what
  it has filled.\<close>

function itoa_loop :: "int \<Rightarrow> string \<Rightarrow> string" where
  "itoa_loop v buf =
     (if v > 0 then itoa_loop (v div 10) (char_of (48 + nat (v mod 10)) # buf) else buf)"
  by pat_completeness auto
termination
  by (relation "measure (\<lambda>(v, buf). nat v)") auto

declare itoa_loop.simps [simp del]

definition itoa :: "int \<Rightarrow> string" where
  "itoa v =
     (if v = 0 then ''0''
      else
        (let neg = v < 0; v = (if neg then wrap64 (- v) else v); buf = itoa_loop v []
         in if neg then CHR ''-'' # buf else buf))"

definition reply_wire :: "int \<Rightarrow> string \<Rightarrow> string" where
  "reply_wire code text = itoa code @ '' '' @ text @ CRLF"

fun replyMulti_wire :: "int \<Rightarrow> string list \<Rightarrow> string" where
  "replyMulti_wire code [] = ''''"
| "replyMulti_wire code (l # ls) =
     itoa code @ (if ls = [] then '' '' else ''-'') @ l @ CRLF @ replyMulti_wire code ls"

section \<open>Lines\<close>

datatype rderr = LineTooLong | EndOfFile | UnexpectedEOF | ReadFault | BareLineFeed | SessionExpired | DeadlineFault

record reader =
  rin :: string
  rend_EOF :: bool

text \<open>The size of a reader is what is left to read: the measure of every loop over the input.\<close>

instantiation reader_ext :: (type) size
begin

definition size_reader_ext :: "'a reader_ext \<Rightarrow> nat" where
  "size_reader_ext r = length (rin r)"

instance ..

end

lemmas size_reader [simp] = size_reader_ext_def

definition rend :: "reader \<Rightarrow> rderr" where
  "rend r = (if rend_EOF r then EndOfFile else ReadFault)"

definition maxCommandLine :: int where "maxCommandLine = 512"
definition maxDataLine :: int where "maxDataLine = 65536"

text \<open>\<^verbatim>\<open>readLine\<close>: the limit is looked at when the whole line has been read.\<close>

definition readLine :: "int \<Rightarrow> reader \<Rightarrow> (rderr + string) \<times> reader" where
  "readLine lim r =
     (case ReadString (rin r) of
        (chunk, found, rest) \<Rightarrow>
          (if int (length chunk) > lim then Inl LineTooLong
           else if \<not> found then Inl (rend r)
           else Inr chunk,
           r\<lparr>rin := rest\<rparr>))"

definition discardLine :: "reader \<Rightarrow> rderr option \<times> reader" where
  "discardLine r =
     (case ReadString (rin r) of
        (_, found, rest) \<Rightarrow> (if found then None else Some (rend r), r\<lparr>rin := rest\<rparr>))"

definition splitCommand :: "golib \<Rightarrow> string \<Rightarrow> string \<times> string" where
  "splitCommand G line0 =
     (let line = TrimLeft line0 '' ''
      in case IndexAny line [SP, TAB] of
           None \<Rightarrow> (ToUpper G line, '''')
         | Some i \<Rightarrow> (ToUpper G (take i line), TrimSpace (drop (i + 1) line)))"

definition parsePath :: "golib \<Rightarrow> string \<Rightarrow> string \<Rightarrow> string option" where
  "parsePath G arg prefix =
     (if length arg < length prefix \<or> \<not> EqualFold (take (length prefix) arg) prefix then None
      else
        (let rest = TrimSpace (drop (length prefix) arg)
         in if rest = '''' then None
            else if HasPrefix rest ''<'' then
              (case IndexAny rest ''>'' of
                 None \<Rightarrow> None
               | Some end_ \<Rightarrow> Some (ToLower G (TrimSpace (drop 1 (take end_ rest)))))
            else
              (case IndexAny rest [SP, TAB] of
                 None \<Rightarrow> Some (ToLower G rest)
               | Some i \<Rightarrow> Some (ToLower G (take i rest)))))"

section \<open>The message body\<close>

record bodystate =
  b_buf :: string
  b_total :: int
  b_over :: bool

definition body_init :: bodystate where
  "body_init = \<lparr>b_buf = [], b_total = 0, b_over = False\<rparr>"

text \<open>What a turn of the loop does with a line that was read; the result is the loop's, if it
  ends.\<close>

definition body_line :: "int \<Rightarrow> string \<Rightarrow> bodystate \<Rightarrow> (string \<times> bool) option \<times> bodystate" where
  "body_line lim line b =
     (let trimmed0 = TrimRight line CRLF
      in if trimmed0 = ''.'' then
           (Some (if b_over b then ([], True) else (b_buf b, False)), b)
         else
           (let trimmed = (if HasPrefix trimmed0 ''..'' then drop 1 trimmed0 else trimmed0);
                total = wrap64 (b_total b + (int (length trimmed) + 2))
            in (None,
                if total > lim then b\<lparr>b_total := total, b_over := True, b_buf := []\<rparr>
                else if b_over b then b\<lparr>b_total := total\<rparr>
                else b\<lparr>b_total := total, b_buf := b_buf b @ trimmed @ CRLF\<rparr>)))"

definition body_turn ::
    "int \<Rightarrow> bodystate \<Rightarrow> reader \<Rightarrow> (rderr + string \<times> bool) option \<times> bodystate \<times> reader" where
  "body_turn lim b r =
     (case readLine maxDataLine r of
        (Inl e, r1) \<Rightarrow>
          if e = LineTooLong then
            (case discardLine r1 of
               (Some derr, r2) \<Rightarrow> (Some (Inl derr), b, r2)
             | (None, r2) \<Rightarrow> (None, b\<lparr>b_over := True, b_buf := []\<rparr>, r2))
          else (Some (Inl (if e = EndOfFile then UnexpectedEOF else e)), b, r1)
      | (Inr line, r1) \<Rightarrow>
          (case body_line lim line b of
             (Some res, b1) \<Rightarrow> (Some (Inr res), b1, r1)
           | (None, b1) \<Rightarrow> (None, b1, r1)))"

text \<open>A turn that goes on has consumed input.\<close>

lemma ReadString_shorter:
  assumes "ReadString s = (l, True, r)" shows "length r < length s"
  using ReadString_split [OF assms] ReadString_found [OF assms] by auto

lemma ReadString_le: "ReadString s = (l, found, r) \<Longrightarrow> length r \<le> length s"
  by (drule ReadString_split) simp

lemma readLine_shorter: "readLine lim r = (Inr l, r1) \<Longrightarrow> size r1 < size r"
  by (auto simp: readLine_def split: prod.splits if_splits dest: ReadString_shorter)

lemma readLine_le: "readLine lim r = (x, r1) \<Longrightarrow> size r1 \<le> size r"
  by (auto simp: readLine_def split: prod.splits dest: ReadString_le)

lemma discardLine_shorter: "discardLine r = (None, r1) \<Longrightarrow> size r1 < size r"
  by (auto simp: discardLine_def split: prod.splits if_splits dest: ReadString_shorter)

lemma discardLine_le: "discardLine r = (x, r1) \<Longrightarrow> size r1 \<le> size r"
  by (auto simp: discardLine_def split: prod.splits dest: ReadString_le)

lemma body_turn_le: "body_turn lim b r = (x, b1, r1) \<Longrightarrow> size r1 \<le> size r"
  by (auto simp: body_turn_def split: prod.splits sum.splits option.splits if_splits
      dest!: readLine_le discardLine_le)

lemma body_turn_shorter: "body_turn lim b r = (None, b1, r1) \<Longrightarrow> size r1 < size r"
  by (fastforce simp: body_turn_def split: prod.splits sum.splits option.splits if_splits
      dest: readLine_shorter discardLine_shorter readLine_le)

function body_loop ::
    "int \<Rightarrow> bodystate \<Rightarrow> reader \<Rightarrow> (rderr + string \<times> bool) \<times> reader" where
  "body_loop lim b r =
     (case body_turn lim b r of
        (Some x, b1, r1) \<Rightarrow> (x, r1)
      | (None, b1, r1) \<Rightarrow> body_loop lim b1 r1)"
  by pat_completeness auto
termination
  by (relation "measure (\<lambda>(lim, b, r). size r)") (auto dest: body_turn_shorter [OF sym])

declare body_loop.simps [simp del]

section \<open>Lemmas on numerals\<close>

lemma itoa_loop_dec: "0 < v \<Longrightarrow> itoa_loop v buf = dec_nat (nat v) @ buf"
proof (induction v buf rule: itoa_loop.induct)
  case (1 v buf)
  have d: "nat (v div 10) = nat v div 10" "nat (v mod 10) = nat v mod 10"
    using "1.prems" by (simp_all add: nat_div_distrib nat_mod_distrib)
  show ?case
  proof (cases "v < 10")
    case True
    then have "nat v < 10" by simp
    with True "1.prems" show ?thesis
      by (simp add: itoa_loop.simps [of v] itoa_loop.simps [of 0] dec_nat.simps [of "nat v"] digit_char_def d)
  next
    case False
    then have "\<not> nat v < 10" by simp
    with False 1 show ?thesis
      by (simp add: itoa_loop.simps [of v] dec_nat.simps [of "nat v"] digit_char_def d)
  qed
qed

lemma dec_nat_zero: "dec_nat 0 = ''0''"
  by code_simp

lemma itoa_Itoa:
  assumes "in_int64 v" "v \<noteq> - (2 ^ 63)" shows "itoa v = Itoa v"
proof -
  have "wrap64 (- v) = - v" using assms by (intro wrap64_id) (auto simp: in_int64_def)
  then show ?thesis
    by (auto simp: itoa_def Itoa_def Let_def itoa_loop_dec dec_nat_zero)
qed

lemma length_dec_nat: "n < 10 ^ k \<Longrightarrow> 0 < k \<Longrightarrow> length (dec_nat n) \<le> k"
proof (induction k arbitrary: n)
  case (Suc k)
  show ?case
  proof (cases "n < 10")
    case False
    with Suc.prems have "k \<noteq> 0" "n div 10 < 10 ^ k" by (cases k; simp)+
    with Suc.IH [of "n div 10"] False show ?thesis by (simp add: dec_nat.simps [of n])
  qed (simp add: dec_nat.simps [of n])
qed simp

lemma itoa_nat: "n < 1000 \<Longrightarrow> itoa (int n) = dec_nat n"
  by (simp add: itoa_Itoa in_int64_def Itoa_def)

section \<open>Lemmas on addresses\<close>

lemma set_TrimLeft: "set (TrimLeft s cs) \<subseteq> set s"
  by (simp add: TrimLeft_def set_dropWhile_subset)

lemma itoa_loop_LF: "LF \<notin> set buf \<Longrightarrow> LF \<notin> set (itoa_loop v buf)"
proof (induction v buf rule: itoa_loop.induct)
  case (1 v buf)
  have "of_char (char_of (48 + nat (v mod 10)) :: char) \<noteq> (of_char LF :: nat)" if "0 < v"
    by (simp add: nat_less_iff)
  then have "char_of (48 + nat (v mod 10)) \<noteq> LF" if "0 < v" using that by metis
  with 1 show ?case by (auto simp: itoa_loop.simps [of v])
qed

lemma itoa_LF: "LF \<notin> set (itoa v)"
  using itoa_loop_LF [of "[]"] by (auto simp: itoa_def Let_def)

lemma splitCommand_arg: "splitCommand G line = (verb, arg) \<Longrightarrow> set arg \<subseteq> set line"
proof -
  assume s: "splitCommand G line = (verb, arg)"
  let ?l = "TrimLeft line '' ''"
  have "arg = '''' \<or> (\<exists>i. arg = TrimSpace (drop (i + 1) ?l))"
    using s by (auto simp: splitCommand_def Let_def split: option.splits)
  then show ?thesis
    using set_TrimSpace set_drop_subset set_TrimLeft [of line "'' ''"] by fastforce
qed

lemma parsePath_chars:
  assumes "lower_keeps G" "octet c < 65" "parsePath G arg prefix = Some p" "c \<in> set p"
  shows "c \<in> set arg"
proof -
  let ?rest = "TrimSpace (drop (length prefix) arg)"
  consider e where "p = ToLower G (TrimSpace (drop 1 (take e ?rest)))" | "p = ToLower G ?rest"
    | i where "p = ToLower G (take i ?rest)"
    using assms(3) by (auto simp: parsePath_def Let_def split: if_splits option.splits)
  then obtain q where q: "p = ToLower G q" "set q \<subseteq> set ?rest"
  proof cases
    case (1 e)
    have "set (TrimSpace (drop 1 (take e ?rest))) \<subseteq> set (drop 1 (take e ?rest))" by (rule set_TrimSpace)
    also have "\<dots> \<subseteq> set (take e ?rest)" by (rule set_drop_subset)
    also have "\<dots> \<subseteq> set ?rest" by (rule set_take_subset)
    finally show ?thesis by (rule that [OF 1])
  next
    case 2
    then show ?thesis by (rule that) simp
  next
    case (3 i)
    then show ?thesis by (rule that) (rule set_take_subset)
  qed
  have "c \<in> set q" using set_ToLower [OF assms(1,2)] assms(4) unfolding q(1) .
  with q(2) have "c \<in> set ?rest" by blast
  then show ?thesis using set_TrimSpace [of "drop (length prefix) arg"] by (meson in_set_dropD subsetD)
qed

section \<open>Lemmas on the body\<close>

definition chomp :: "string \<Rightarrow> string" where
  "chomp l = TrimRight (l @ [LF]) CRLF"

definition unstuff :: "string \<Rightarrow> string" where
  "unstuff t = (if HasPrefix t ''..'' then drop 1 t else t)"

text \<open>A line as the program stores it: no line feed, no carriage return at its end.\<close>

definition tidy :: "string \<Rightarrow> bool" where
  "tidy l \<longleftrightarrow> LF \<notin> set l \<and> (l = [] \<or> last l \<noteq> CR)"

definition text_of :: "string list \<Rightarrow> string" where
  "text_of ls = concat (map (\<lambda>l. l @ CRLF) ls)"

definition stream_of :: "string list \<Rightarrow> string" where
  "stream_of ls = concat (map (\<lambda>l. l @ [LF]) ls)"

definition data_line :: "string \<Rightarrow> bool" where
  "data_line l \<longleftrightarrow> LF \<notin> set l \<and> int (length l) < 65536 \<and> chomp l \<noteq> ''.''"

definition stored :: "string \<Rightarrow> string" where
  "stored l = unstuff (chomp l)"

definition stored_size :: "string list \<Rightarrow> int" where
  "stored_size ls = int (length (text_of (map stored ls)))"

lemma text_of_simps [simp]:
  "text_of [] = []" "text_of (l # ls) = l @ CRLF @ text_of ls" "text_of (ls @ ms) = text_of ls @ text_of ms"
  by (simp_all add: text_of_def)

lemma stream_of_simps [simp]: "stream_of [] = []" "stream_of (l # ls) = l @ LF # stream_of ls"
  by (simp_all add: stream_of_def)

lemma stored_size_simps [simp]:
  "stored_size [] = 0" "stored_size (l # ls) = int (length (stored l)) + 2 + stored_size ls"
  by (simp_all add: stored_size_def)

lemma stored_size_nonneg: "0 \<le> stored_size ls"
  by (simp add: stored_size_def)

lemma chomp_tidy:
  assumes "LF \<notin> set l" shows "tidy (chomp l)"
proof -
  have "set (TrimRight l cs) \<subseteq> set l" for l cs
    using set_dropWhile_subset [of "\<lambda>c. c \<in> set cs" "rev l"] by (simp add: TrimRight_def)
  moreover have "chomp l = TrimRight l CRLF" by (simp add: chomp_def TrimRight_def)
  moreover have "last (TrimRight l CRLF) \<noteq> CR" if "TrimRight l CRLF \<noteq> []"
    using that hd_dropWhile [of "\<lambda>c. c \<in> set CRLF" "rev l"] by (simp add: TrimRight_def last_rev)
  ultimately show ?thesis using assms unfolding tidy_def by (metis subsetD)
qed

lemma stored_tidy: "LF \<notin> set l \<Longrightarrow> tidy (stored l)"
  using chomp_tidy [of l]
  by (auto simp: stored_def unstuff_def tidy_def HasPrefix_iff last_drop)

lemma chomp_length: "length (chomp l) \<le> length l"
  using length_dropWhile_le [of "\<lambda>c. c \<in> set CRLF" "rev l"]
  by (simp add: chomp_def TrimRight_def)

lemma stored_length: "length (stored l) \<le> length l"
  using chomp_length [of l] by (auto simp: stored_def unstuff_def)

lemma body_line_stored:
  "chomp l \<noteq> ''.'' \<Longrightarrow> body_line lim (l @ [LF]) b =
     (None, let total = wrap64 (b_total b + (int (length (stored l)) + 2))
        in if lim < total then b\<lparr>b_total := total, b_over := True, b_buf := []\<rparr>
           else if b_over b then b\<lparr>b_total := total\<rparr>
           else b\<lparr>b_total := total, b_buf := b_buf b @ stored l @ CRLF\<rparr>)"
  by (simp add: body_line_def chomp_def [symmetric] unstuff_def [symmetric] stored_def Let_def)

lemma body_turn_data:
  assumes "data_line l"
  shows "body_turn lim b (r\<lparr>rin := l @ LF # rest\<rparr>) =
     (None, snd (body_line lim (l @ [LF]) b), r\<lparr>rin := rest\<rparr>)"
  using assms
  by (simp add: body_turn_def readLine_def maxDataLine_def data_line_def body_line_stored)

lemma body_loop_data:
  "list_all data_line ls \<Longrightarrow>
     body_loop lim b (r\<lparr>rin := stream_of ls @ rest\<rparr>) =
     body_loop lim (fold (\<lambda>l b. snd (body_line lim (l @ [LF]) b)) ls b) (r\<lparr>rin := rest\<rparr>)"
proof (induction ls arbitrary: b)
  case (Cons l ls)
  have "body_loop lim b (r\<lparr>rin := l @ LF # (stream_of ls @ rest)\<rparr>) =
      body_loop lim (snd (body_line lim (l @ [LF]) b)) (r\<lparr>rin := stream_of ls @ rest\<rparr>)"
    using Cons.prems by (subst body_loop.simps) (simp add: body_turn_data)
  with Cons show ?case by simp
qed simp

lemma body_loop_dot:
  assumes "LF \<notin> set d" "int (length d) < 65536" "chomp d = ''.''"
  shows "body_loop lim b (r\<lparr>rin := d @ LF # rest\<rparr>) =
     (Inr (if b_over b then ([], True) else (b_buf b, False)), r\<lparr>rin := rest\<rparr>)"
  using assms
  by (subst body_loop.simps)
    (simp add: body_turn_def readLine_def maxDataLine_def body_line_def chomp_def [symmetric] Let_def)

lemma fold_body_line:
  assumes "list_all data_line ls" "0 \<le> b_total b" "b_total b + stored_size ls < 2 ^ 63"
    "\<not> b_over b \<longrightarrow> b_total b \<le> lim"
  shows "let b' = fold (\<lambda>l b. snd (body_line lim (l @ [LF]) b)) ls b
     in b_over b' = (b_over b \<or> lim < b_total b + stored_size ls) \<and>
        (b_over b' \<or> b_buf b' = b_buf b @ text_of (map stored ls))"
  using assms
proof (induction ls arbitrary: b)
  case (Cons l ls)
  let ?t = "b_total b + (int (length (stored l)) + 2)" and ?b = "snd (body_line lim (l @ [LF]) b)"
  have "0 \<le> stored_size ls" by (rule stored_size_nonneg)
  moreover have "wrap64 ?t = ?t" using Cons.prems calculation by (intro wrap64_id) (simp add: in_int64_def)
  ultimately have b: "b_total ?b = ?t" "b_over ?b \<longleftrightarrow> b_over b \<or> lim < ?t"
    "b_over ?b \<or> b_buf ?b = b_buf b @ stored l @ CRLF"
    using Cons.prems by (auto simp: body_line_stored data_line_def Let_def)
  define b1 where "b1 = ?b"
  note b = b [folded b1_def]
  have s: "b_total b1 + stored_size ls = b_total b + stored_size (l # ls)" by (simp add: b)
  have over: "lim < b_total b1 + stored_size ls" if "lim < ?t" using that b(1) \<open>0 \<le> stored_size ls\<close> by simp
  have "list_all data_line ls" "0 \<le> b_total b1" "b_total b1 + stored_size ls < 2 ^ 63"
    "\<not> b_over b1 \<longrightarrow> b_total b1 \<le> lim"
    using Cons.prems(1,2) b Cons.prems(3) [folded s] by auto
  note ih = Cons.IH [OF this, unfolded Let_def]
  have f: "fold (\<lambda>l b. snd (body_line lim (l @ [LF]) b)) (l # ls) b =
      fold (\<lambda>l b. snd (body_line lim (l @ [LF]) b)) ls b1" by (simp add: b1_def)
  show ?case
    unfolding f Let_def s [symmetric] using ih b(2,3) over by auto
qed (auto simp: Let_def)

text \<open>What every state of the loop satisfies. The unread input bounds the count, so that it does not
  wrap.\<close>

definition body_inv :: "int \<Rightarrow> bodystate \<Rightarrow> reader \<Rightarrow> bool" where
  "body_inv lim b r \<longleftrightarrow>
     0 \<le> b_total b \<and> b_total b + 2 * int (length (rin r)) < 2 ^ 63 \<and>
     (\<not> b_over b \<longrightarrow> int (length (b_buf b)) = b_total b \<and> b_total b \<le> lim \<and>
        (\<exists>ls. list_all tidy ls \<and> b_buf b = text_of ls))"

lemma readLine_Inr:
  assumes "readLine lim r = (Inr l, r1)"
  shows "\<exists>a. l = a @ [LF] \<and> LF \<notin> set a \<and> rin r = a @ LF # rin r1"
proof -
  have rs: "ReadString (rin r) = (l, True, rin r1)"
    using assms by (auto simp: readLine_def split: prod.splits if_splits)
  show ?thesis using ReadString_found [OF rs] ReadString_split [OF rs] by auto
qed

lemma body_line_inv:
  assumes "body_inv lim b r" "rin r = a @ LF # rin r1" "LF \<notin> set a" "chomp a \<noteq> ''.''"
  shows "body_inv lim (snd (body_line lim (a @ [LF]) b)) r1"
proof -
  let ?t = "b_total b + (int (length (stored a)) + 2)"
  have t: "0 \<le> ?t" "?t + 2 * int (length (rin r1)) < 2 ^ 63"
    using assms(1,2) stored_length [of a] by (auto simp: body_inv_def)
  then have w: "wrap64 ?t = ?t" by (intro wrap64_id) (simp add: in_int64_def)
  show ?thesis
  proof (cases "lim < ?t \<or> b_over b")
    case True
    with t w assms(4) show ?thesis by (auto simp: body_line_stored Let_def body_inv_def)
  next
    case False
    then obtain ls where "list_all tidy ls" "b_buf b = text_of ls"
      using assms(1) by (auto simp: body_inv_def)
    then have "list_all tidy (ls @ [stored a])" "b_buf b @ stored a @ CRLF = text_of (ls @ [stored a])"
      using stored_tidy [OF assms(3)] by simp_all
    then have "\<exists>ls'. list_all tidy ls' \<and> b_buf b @ stored a @ CRLF = text_of ls'" by blast
    with False t w assms(1,4) show ?thesis by (simp add: body_line_stored Let_def body_inv_def)
  qed
qed

lemma body_line_None: "fst (body_line lim (a @ [LF]) b) = None \<longleftrightarrow> chomp a \<noteq> ''.''"
  by (simp add: body_line_def chomp_def Let_def)

text \<open>The ways a turn ends.\<close>

lemma body_turn_cases:
  assumes "body_turn lim b r = (x, b1, r1)"
  obtains (error) e where "x = Some (Inl e)"
  | (long) "x = None" "b1 = b\<lparr>b_over := True, b_buf := []\<rparr>" "length (rin r1) \<le> length (rin r)"
  | (line) a where "x = None" "rin r = a @ LF # rin r1" "LF \<notin> set a" "chomp a \<noteq> ''.''"
      "b1 = snd (body_line lim (a @ [LF]) b)"
  | (dot) "x = Some (Inr (if b_over b then ([], True) else (b_buf b, False)))"
proof (cases "readLine maxDataLine r")
  case (Pair y r2)
  show ?thesis
  proof (cases y)
    case (Inl e)
    show ?thesis
    proof (cases "e = LineTooLong")
      case True
      obtain d r3 where d: "discardLine r2 = (d, r3)" by fastforce
      with assms Pair Inl True readLine_le [OF Pair] discardLine_le [OF d] error long show ?thesis
        by (auto simp: body_turn_def split: option.splits)
    next
      case False
      with assms Pair Inl error show ?thesis by (auto simp: body_turn_def)
    qed
  next
    case (Inr l)
    then obtain a where a: "l = a @ [LF]" "LF \<notin> set a" "rin r = a @ LF # rin r2"
      using readLine_Inr Pair by blast
    show ?thesis
    proof (cases "chomp a = ''.''")
      case True
      with assms Pair Inr a dot show ?thesis
        by (auto simp: body_turn_def body_line_def chomp_def Let_def)
    next
      case False
      obtain b2 where b2: "body_line lim (a @ [LF]) b = (None, b2)"
        using False body_line_None [of lim a b] by (metis prod.collapse)
      with assms Pair Inr a have "x = None" "r1 = r2" "b1 = b2" by (auto simp: body_turn_def)
      with a b2 False show ?thesis by (intro line [of a]) simp_all
    qed
  qed
qed

lemma body_loop_inv:
  "body_inv lim b r \<Longrightarrow> 0 \<le> lim \<Longrightarrow> body_loop lim b r = (Inr (body, over), r') \<Longrightarrow>
     int (length body) \<le> lim \<and> (over \<longrightarrow> body = []) \<and> (\<exists>ls. list_all tidy ls \<and> body = text_of ls)"
proof (induction lim b r rule: body_loop.induct)
  case (1 lim b r)
  obtain x b1 r1 where t: "body_turn lim b r = (x, b1, r1)" by (metis prod_cases3)
  note l = "1.prems"(3) [unfolded body_loop.simps [of lim b r] t]
  have nil: "\<exists>ls. list_all tidy ls \<and> [] = text_of ls" by (intro exI [of _ "[]"]) simp
  show ?case
    using t
  proof (cases rule: body_turn_cases)
    case error
    with l show ?thesis by simp
  next
    case long
    then have "body_inv lim b1 r1" using "1.prems"(1) by (auto simp: body_inv_def)
    with "1.IH" [OF t [symmetric] long(1) refl] long(1) l "1.prems"(2) show ?thesis by simp
  next
    case (line a)
    then have "body_inv lim b1 r1" using body_line_inv [OF "1.prems"(1)] by blast
    with "1.IH" [OF t [symmetric] line(1) refl] line(1) l "1.prems"(2) show ?thesis by simp
  next
    case dot
    with l "1.prems" nil show ?thesis by (auto simp: body_inv_def split: if_splits)
  qed
qed

text \<open>A stored line, sent with CR LF, is read back as it is.\<close>

lemma chomp_CR: "tidy l \<Longrightarrow> chomp (l @ [CR]) = l"
proof -
  assume "tidy l"
  then have "dropWhile (\<lambda>c. c = CR \<or> c = LF) (rev l) = rev l"
    by (cases l rule: rev_cases) (auto simp: tidy_def)
  then show ?thesis by (simp add: chomp_def TrimRight_def)
qed

lemma body_loop_exact:
  assumes "list_all data_line ls" "LF \<notin> set d" "int (length d) < 65536" "chomp d = ''.''"
    "0 \<le> lim" "stored_size ls < 2 ^ 63"
  shows "body_loop lim body_init (r\<lparr>rin := stream_of ls @ d @ LF # rest\<rparr>) =
     (Inr (if stored_size ls \<le> lim then (text_of (map stored ls), False) else ([], True)), r\<lparr>rin := rest\<rparr>)"
  using fold_body_line [of ls body_init lim] assms
  by (auto simp: body_loop_data body_loop_dot body_init_def Let_def)

lemma parsePath_bracketed:
  assumes "map lower_char p = map lower_char prefix" "CHR ''>'' \<notin> set addr"
    "addr = [] \<or> graphic (hd addr) \<and> graphic (last addr)" "params = [] \<or> graphic (last params)"
  shows "parsePath G (p @ ''<'' @ addr @ ''>'' @ params) prefix = Some (ToLower G addr)"
proof -
  let ?rest = "''<'' @ addr @ ''>'' @ params"
  have l: "length p = length prefix" using assms(1) by (metis length_map)
  have "TrimSpace ?rest = ?rest"
    using assms(4) by (intro TrimSpace_id) (auto simp: graphic_def octet_def)
  moreover have "IndexAny ?rest ''>'' = Some (Suc (length addr))"
    using assms(2) by (simp add: IndexAny_append IndexAny_None [THEN iffD2])
  ultimately show ?thesis
    using l assms TrimSpace_id [OF assms(3)]
    by (simp add: parsePath_def EqualFold_def HasPrefix_def Let_def)
qed

section \<open>Properties\<close>

text \<open>C7: Reading a body: for any lines of at most 65536 octets up to the first dot line, in either
  line-ending convention, the result is the lines with their endings normalised and one dot of the
  dot-stuffing removed, if that text fits the size limit, and the oversize mark with no text if it
  does not; what follows the dot line is left unread.\<close>

theorem readBody_exact:
  assumes "list_all data_line ls" "LF \<notin> set d" "int (length d) < 65536" "chomp d = ''.''"
    "0 \<le> lim" "stored_size ls < 2 ^ 63"
  shows "body_loop lim body_init (r\<lparr>rin := stream_of ls @ d @ LF # rest\<rparr>) =
     (Inr (if stored_size ls \<le> lim then (text_of (map stored ls), False) else ([], True)), r\<lparr>rin := rest\<rparr>)"
  using assms by (rule body_loop_exact)

theorem readBody_exact_witness:
  "body_loop 100 body_init (\<lparr>rin = [], rend_EOF = True\<rparr>\<lparr>rin := stream_of [''Hi'' @ [CR], ''..x''] @ ''.'' @ LF # ''QUIT''\<rparr>) =
     (Inr (''Hi'' @ CRLF @ ''.x'' @ CRLF, False), \<lparr>rin = ''QUIT'', rend_EOF = True\<rparr>)"
proof -
  have "list_all data_line [''Hi'' @ [CR], ''..x'']" "chomp ''.'' = ''.''"
    "stored_size [''Hi'' @ [CR], ''..x''] = 8" "text_of (map stored [''Hi'' @ [CR], ''..x'']) = ''Hi'' @ CRLF @ ''.x'' @ CRLF"
    by code_simp+
  then show ?thesis
    using readBody_exact [of "[''Hi'' @ [CR], ''..x'']" "''.''" 100 "''QUIT''" "\<lparr>rin = [], rend_EOF = True\<rparr>"] by simp
qed

text \<open>C30: Whatever the client sends, a body that is accepted never exceeds the size limit, an oversize
  one keeps no octets, and every stored body is a sequence of lines ended by CR LF in which no other
  line feed occurs. (Inputs of up to \<open>2 ^ 61\<close> octets, so that the 64-bit count does not wrap.)\<close>

theorem readBody_bounded_and_normalised:
  assumes "body_loop lim body_init r = (Inr (body, over), r')" "0 \<le> lim" "length (rin r) < 2 ^ 61"
  shows "int (length body) \<le> lim \<and> (over \<longrightarrow> body = []) \<and> (\<exists>ls. list_all tidy ls \<and> body = text_of ls)"
proof (rule body_loop_inv [OF _ assms(2,1)])
  have "\<exists>ls. list_all tidy ls \<and> [] = text_of ls" by (intro exI [of _ "[]"]) simp
  then show "body_inv lim body_init r" using assms(2,3) by (simp add: body_inv_def body_init_def)
qed

theorem readBody_bounded_and_normalised_witness:
  "int (length (''Hi'' @ CRLF)) \<le> 5 \<and> (\<exists>ls. list_all tidy ls \<and> ''Hi'' @ CRLF = text_of ls)"
proof -
  have "body_loop 5 body_init \<lparr>rin = ''Hi'' @ [LF] @ ''.'' @ CRLF, rend_EOF = True\<rparr> =
      (Inr (''Hi'' @ CRLF, False), \<lparr>rin = [], rend_EOF = True\<rparr>)" by code_simp
  from readBody_bounded_and_normalised [OF this] show ?thesis by simp
qed

text \<open>C38: After a line of more than 65536 octets the reader drops the next line as well, whatever it
  is. When that line is the terminating dot, the end of the message is not seen and what follows is
  read as message text.\<close>

theorem readBody_drops_line_after_long_line:
  assumes "LF \<notin> set l" "65536 \<le> int (length l)" "LF \<notin> set d"
  shows "body_loop lim b (r\<lparr>rin := l @ LF # d @ LF # rest\<rparr>) =
     body_loop lim (b\<lparr>b_over := True, b_buf := []\<rparr>) (r\<lparr>rin := rest\<rparr>)"
  using assms
  by (subst body_loop.simps) (simp add: body_turn_def readLine_def maxDataLine_def discardLine_def)

theorem readBody_drops_line_after_long_line_witness:
  "body_loop 100 body_init (\<lparr>rin = [], rend_EOF = True\<rparr>\<lparr>rin := replicate 65536 (CHR ''x'') @ LF # ''.'' @ LF # ''QUIT''\<rparr>) =
     (Inl UnexpectedEOF, \<lparr>rin = [], rend_EOF = True\<rparr>)"
proof -
  have "body_loop 100 body_init (\<lparr>rin = [], rend_EOF = True\<rparr>\<lparr>rin := replicate 65536 (CHR ''x'') @ LF # ''.'' @ LF # ''QUIT''\<rparr>) =
      body_loop 100 (body_init\<lparr>b_over := True, b_buf := []\<rparr>) (\<lparr>rin = [], rend_EOF = True\<rparr>\<lparr>rin := ''QUIT''\<rparr>)"
    by (rule readBody_drops_line_after_long_line) simp_all
  also have "\<dots> = (Inl UnexpectedEOF, \<lparr>rin = [], rend_EOF = True\<rparr>)" by code_simp
  finally show ?thesis .
qed

text \<open>C32: \<^verbatim>\<open>itoa\<close> writes the decimal numeral of every 64-bit integer, which reads back, in
  the 20 octets of its buffer, except for the smallest one, for which negation wraps and only the sign
  is written.\<close>

theorem itoa_numeral:
  assumes "in_int64 v"
  shows "length (itoa v) \<le> 20 \<and> (if v = - (2 ^ 63) then itoa v = ''-'' else itoa v = Itoa v \<and> Atoi (itoa v) = Some v)"
proof (cases "v = - (2 ^ 63)")
  case True
  have "itoa (- (2 ^ 63)) = ''-''" by code_simp
  with True show ?thesis by simp
next
  case False
  have "nat \<bar>v\<bar> < 10 ^ 19" using assms by (auto simp: in_int64_def)
  then have "length (dec_nat (nat \<bar>v\<bar>)) \<le> 19" by (intro length_dec_nat) simp_all
  then have "length (Itoa v) \<le> 20" by (auto simp: Itoa_def abs_if split: if_splits)
  with False show ?thesis by (simp add: itoa_Itoa [OF assms False] Atoi_Itoa [OF assms])
qed

theorem itoa_numeral_witness: "length (itoa (-120)) \<le> 20 \<and> Atoi (itoa (-120)) = Some (-120)"
  using itoa_numeral [of "-120"] unfolding in_int64_def by auto

text \<open>C33: An address in angle brackets is extracted in lower case, whatever parameters follow, for any
  capitalisation of the keyword; the null address is accepted.\<close>

theorem parsePath_brackets:
  assumes "map lower_char p = map lower_char prefix" "CHR ''>'' \<notin> set addr"
    "addr = [] \<or> graphic (hd addr) \<and> graphic (last addr)" "params = [] \<or> graphic (last params)"
  shows "parsePath G (p @ ''<'' @ addr @ ''>'' @ params) prefix = Some (ToLower G addr)"
  using assms by (rule parsePath_bracketed)

theorem parsePath_brackets_witness:
  "\<forall>G. parsePath G (''from:'' @ ''<'' @ ''Ann@Vendor.com'' @ ''>'' @ '' SIZE=100'') ''FROM:'' = Some (ToLower G ''Ann@Vendor.com'')"
proof (rule allI, rule parsePath_brackets)
  show "map lower_char ''from:'' = map lower_char ''FROM:''" by code_simp
qed (simp_all add: graphic_def octet_def)

end
