(* ===== verification/Session.thy ===== *)
theory Session
  imports Policy Msg Wire
begin

text \<open>
  The SMTP session, \<^verbatim>\<open>internal/server/session.go\<close> and \<^verbatim>\<open>transaction.go\<close>: one
  definition for each handler, the command loop, and \<^verbatim>\<open>handleConn\<close>.

  The environment record holds what a session calls: the library, the clock, the allocation of a
  message, the resolver, the dispatcher, whether there is a TLS configuration, the TLS handshake (which
  yields a new stream, or fails) and \<^verbatim>\<open>SetReadDeadline\<close>. All of them read and change the
  state of the world. The session record has the fields of the source, the stream still to be read,
  the replies written so far (each with the channel it went out on), the log, and the messages handed
  to the dispatcher.

  A handler returns whether the loop goes on, stops, or has panicked on a nil route. The loop is a
  total function: a turn consumes input, or changes to the TLS stream, which happens once.
\<close>

section \<open>State\<close>

record 'w env =
  e_lib :: golib
  e_now :: "'w clock"
  e_alloc :: "'w \<Rightarrow> nat \<times> 'w"
  e_resolver :: "'w Resolver"
  e_dispatch :: "'w dispatcher"
  e_tlsConf :: bool
  e_handshake :: "string \<Rightarrow> 'w \<Rightarrow> reader option \<times> 'w"
  e_SetReadDeadline :: "int \<Rightarrow> 'w \<Rightarrow> bool \<times> 'w"

datatype sevent =
    LogHandshakeFailed
  | LogAdmitted string Decision
  | LogDeferred string Decision
  | LogRejected string Decision
  | LogRcptRejected string string
  | LogOversize string string string
  | LogDelivered string string string nat
  | LogQueued string string string nat "goerr option"
  | LogTempFail string string string "goerr option"
  | LogPermFail string string string "goerr option"

record 'w session =
  s_cfg :: Config
  s_mode :: TLSMode
  encrypted :: bool
  peerIP :: "8 word list"
  s_deadline :: int
  helo :: string
  s_from :: string
  s_rcpt :: string
  s_route :: "Route option"
  inTx :: bool
  s_r :: reader
  s_wdeadline :: int
  s_out :: "(bool \<times> string) list"
  s_log :: "sevent list"
  s_sent :: "Message list"
  s_world :: 'w

datatype ctl = Continue | Stop | Panic

section \<open>Replies and reading\<close>

definition say :: "'w env \<Rightarrow> string \<Rightarrow> 'w session \<Rightarrow> 'w session" where
  "say E text s =
     (let (now, w) = e_now E (s_world s)
      in s\<lparr>s_wdeadline := now + CommandTimeout (c_Limits (s_cfg s)),
           s_out := s_out s @ [(encrypted s, text)], s_world := w\<rparr>)"

definition reply :: "'w env \<Rightarrow> int \<Rightarrow> string \<Rightarrow> 'w session \<Rightarrow> 'w session" where
  "reply E code text s = say E (reply_wire code text) s"

definition replyMulti :: "'w env \<Rightarrow> int \<Rightarrow> string list \<Rightarrow> 'w session \<Rightarrow> 'w session" where
  "replyMulti E code ls s = say E (replyMulti_wire code ls) s"

definition log :: "sevent \<Rightarrow> 'w session \<Rightarrow> 'w session" where
  "log ev s = s\<lparr>s_log := s_log s @ [ev]\<rparr>"

definition resetTx :: "'w session \<Rightarrow> 'w session" where
  "resetTx s = s\<lparr>s_from := '''', s_rcpt := '''', s_route := None, inTx := False\<rparr>"

definition setReadDeadline :: "'w env \<Rightarrow> 'w session \<Rightarrow> rderr option \<times> 'w session" where
  "setReadDeadline E s =
     (let (t1, w1) = e_now E (s_world s);
          d0 = t1 + CommandTimeout (c_Limits (s_cfg s));
          d = (if d0 > s_deadline s then s_deadline s else d0);
          (t2, w2) = e_now E w1
      in if \<not> t2 < d then (Some SessionExpired, s\<lparr>s_world := w2\<rparr>)
         else (let (ok, w3) = e_SetReadDeadline E d w2
               in (if ok then None else Some DeadlineFault, s\<lparr>s_world := w3\<rparr>)))"

definition readCommand :: "'w env \<Rightarrow> 'w session \<Rightarrow> (rderr + string) \<times> 'w session" where
  "readCommand E s =
     (case setReadDeadline E s of
        (Some e, s1) \<Rightarrow> (Inl e, s1)
      | (None, s1) \<Rightarrow>
          (case readLine maxCommandLine (s_r s1) of
             (Inl e, r1) \<Rightarrow> (Inl e, s1\<lparr>s_r := r1\<rparr>)
           | (Inr line, r1) \<Rightarrow>
               (if \<not> HasSuffix line CRLF then Inl BareLineFeed else Inr (TrimSuffix line CRLF),
                s1\<lparr>s_r := r1\<rparr>)))"

lemma setReadDeadline_frame:
  assumes "setReadDeadline E s = (x, s1)" shows "\<exists>w. s1 = s\<lparr>s_world := w\<rparr>"
  using assms by (auto simp: setReadDeadline_def Let_def split: prod.splits if_splits)

lemma setReadDeadline_r: "setReadDeadline E s = (x, s1) \<Longrightarrow> s_r s1 = s_r s"
  by (auto dest!: setReadDeadline_frame)

function readBody ::
    "'w env \<Rightarrow> int \<Rightarrow> bodystate \<Rightarrow> 'w session \<Rightarrow> (rderr + string \<times> bool) \<times> 'w session" where
  "readBody E lim b s =
     (case setReadDeadline E s of
        (Some e, s1) \<Rightarrow> (Inl e, s1)
      | (None, s1) \<Rightarrow>
          (case body_turn lim b (s_r s1) of
             (Some x, b1, r1) \<Rightarrow> (x, s1\<lparr>s_r := r1\<rparr>)
           | (None, b1, r1) \<Rightarrow> readBody E lim b1 (s1\<lparr>s_r := r1\<rparr>)))"
  by pat_completeness auto
termination
  by (relation "measure (\<lambda>(E, lim, b, s). size (s_r s))")
    (auto dest!: body_turn_shorter [OF sym] setReadDeadline_r [OF sym])

declare readBody.simps [simp del]

section \<open>Handlers\<close>

definition handleEHLO :: "'w env \<Rightarrow> string \<Rightarrow> 'w session \<Rightarrow> 'w session" where
  "handleEHLO E arg s =
     (if arg = '''' then reply E 501 ''EHLO requires a domain'' s
      else
        (let s = resetTx (s\<lparr>helo := arg\<rparr>);
             ls = [Hostname (s_cfg s) @ '' greets '' @ arg,
                   ''SIZE '' @ itoa (MaxMessageBytes (c_Limits (s_cfg s))), ''8BITMIME'', ''PIPELINING'']
         in replyMulti E 250
              (if s_mode s = TLSStartTLS \<and> \<not> encrypted s \<and> e_tlsConf E then ls @ [''STARTTLS''] else ls) s))"

definition handleHELO :: "'w env \<Rightarrow> string \<Rightarrow> 'w session \<Rightarrow> 'w session" where
  "handleHELO E arg s =
     (if arg = '''' then reply E 501 ''HELO requires a domain'' s
      else (let s = resetTx (s\<lparr>helo := arg\<rparr>) in reply E 250 (Hostname (s_cfg s)) s))"

definition handleSTARTTLS :: "'w env \<Rightarrow> string \<Rightarrow> 'w session \<Rightarrow> ctl \<times> 'w session" where
  "handleSTARTTLS E arg s =
     (if arg \<noteq> '''' then (Continue, reply E 501 ''STARTTLS takes no argument'' s)
      else if s_mode s \<noteq> TLSStartTLS \<or> \<not> e_tlsConf E then (Continue, reply E 502 ''Command not implemented'' s)
      else if encrypted s then (Continue, reply E 503 ''Already encrypted'' s)
      else
        (let s1 = reply E 220 ''Ready to start TLS'' s;
             (_, w2) = e_now E (s_world s1);
             (shaken, w3) = e_handshake E (rin (s_r s1)) w2
         in case shaken of
              None \<Rightarrow> (Stop, log LogHandshakeFailed (s1\<lparr>s_world := w3\<rparr>))
            | Some r \<Rightarrow>
                (Continue, resetTx (s1\<lparr>s_r := r, encrypted := True, helo := '''', s_world := w3\<rparr>))))"

definition handleMail :: "'w env \<Rightarrow> string \<Rightarrow> 'w session \<Rightarrow> 'w session" where
  "handleMail E arg s =
     (if helo s = '''' then reply E 503 ''Send EHLO first'' s
      else if inTx s then reply E 503 ''Nested MAIL command'' s
      else (case parsePath (e_lib E) arg ''FROM:'' of
              None \<Rightarrow> reply E 501 ''Syntax error in MAIL parameters'' s
            | Some path \<Rightarrow>
                (case Decide (e_lib E) (e_resolver E) (s_cfg s) (peerIP s) path (s_world s) of
                   (d, w) \<Rightarrow>
                     (let s = s\<lparr>s_world := w\<rparr>
                      in case d_Outcome d of
                           Admit \<Rightarrow>
                             reply E 250 ''OK'' (log (LogAdmitted path d) (s\<lparr>s_from := path, inTx := True\<rparr>))
                         | RejectTemporary \<Rightarrow>
                             reply E 451 ''Temporary failure, try again later'' (log (LogDeferred path d) s)
                         | RejectPermanent \<Rightarrow>
                             reply E 550 ''Sender not permitted'' (log (LogRejected path d) s)))))"

definition handleRcpt :: "'w env \<Rightarrow> string \<Rightarrow> 'w session \<Rightarrow> ctl \<times> 'w session" where
  "handleRcpt E arg s =
     (if \<not> inTx s then (Continue, reply E 503 ''Send MAIL first'' s)
      else if s_rcpt s \<noteq> '''' then (Continue, reply E 452 ''Too many recipients'' s)
      else (case parsePath (e_lib E) arg ''TO:'' of
              None \<Rightarrow> (Continue, reply E 501 ''Syntax error in RCPT parameters'' s)
            | Some path \<Rightarrow>
                (case LookupRoute (e_lib E) (s_cfg s) path of
                   None \<Rightarrow>
                     (Stop, reply E 550 ''Recipient not permitted'' (log (LogRcptRejected (s_from s) path) s))
                 | Some r \<Rightarrow>
                     (Continue, reply E 250 ''OK'' (s\<lparr>s_rcpt := path, s_route := Some r\<rparr>)))))"

definition finish :: "'w env \<Rightarrow> 'w session \<Rightarrow> 'w session" where
  "finish E s = reply E 250 ''OK'' (resetTx s)"

text \<open>The message is built and handed to the dispatcher with the route's time-out.\<close>

definition submit :: "'w env \<Rightarrow> Route \<Rightarrow> string \<Rightarrow> 'w session \<Rightarrow> (Result \<times> goerr option) \<times> 'w session" where
  "submit E r body s =
     (let (i, w1) = e_alloc E (s_world s);
          (now, w2) = e_now E w1;
          m = \<lparr>m_id = i, m_From = s_from s, m_To = s_rcpt s, m_Route = s_route s, m_Body = body,
               m_PeerIP = peerIP s, m_Received = now\<rparr>;
          (re, w3) = e_dispatch E (RouteTimeout r) m w2
      in (re, s\<lparr>s_sent := s_sent s @ [m], s_world := w3\<rparr>))"

definition result_event :: "Result \<Rightarrow> string \<Rightarrow> string \<Rightarrow> string \<Rightarrow> nat \<Rightarrow> goerr option \<Rightarrow> sevent" where
  "result_event res f t rt n derr =
     (case res of
        ResultOK \<Rightarrow> LogDelivered f t rt n
      | ResultQueued \<Rightarrow> LogQueued f t rt n derr
      | ResultTempFail \<Rightarrow> LogTempFail f t rt derr
      | ResultPermFail \<Rightarrow> LogPermFail f t rt derr)"

definition handleData :: "'w env \<Rightarrow> string \<Rightarrow> 'w session \<Rightarrow> ctl \<times> 'w session" where
  "handleData E arg s =
     (if arg \<noteq> '''' then (Continue, reply E 501 ''DATA takes no argument'' s)
      else if \<not> inTx s \<or> s_rcpt s = '''' then (Continue, reply E 503 ''Send MAIL and RCPT first'' s)
      else
        (case readBody E (MaxMessageBytes (c_Limits (s_cfg s))) body_init
                (reply E 354 ''Send data, end with a single dot'' s) of
           (Inl e, s1) \<Rightarrow> (Stop, s1)
         | (Inr (body, oversize), s1) \<Rightarrow>
             (case s_route s1 of
                None \<Rightarrow> (Panic, s1)
              | Some r \<Rightarrow>
                  if oversize then
                    (Continue, finish E (log (LogOversize (s_from s1) (s_rcpt s1) (r_Recipient r)) s1))
                  else
                    (case submit E r body s1 of
                       ((res, derr), s2) \<Rightarrow>
                         (Continue, finish E (log (result_event res (s_from s2) (s_rcpt s2) (r_Recipient r)
                            (length body) derr) s2))))))"

section \<open>The command loop\<close>

definition dispatch_verb :: "'w env \<Rightarrow> string \<Rightarrow> string \<Rightarrow> 'w session \<Rightarrow> ctl \<times> 'w session" where
  "dispatch_verb E verb arg s =
     (if verb = ''EHLO'' then (Continue, handleEHLO E arg s)
      else if verb = ''HELO'' then (Continue, handleHELO E arg s)
      else if verb = ''STARTTLS'' then handleSTARTTLS E arg s
      else if verb = ''MAIL'' then
        (let s1 = handleMail E arg s in (if \<not> inTx s1 \<and> s_from s1 = '''' then Stop else Continue, s1))
      else if verb = ''RCPT'' then handleRcpt E arg s
      else if verb = ''DATA'' then handleData E arg s
      else if verb = ''RSET'' then (Continue, reply E 250 ''OK'' (resetTx s))
      else if verb = ''NOOP'' then (Continue, reply E 250 ''OK'' s)
      else if verb = ''QUIT'' then (Stop, reply E 221 (Hostname (s_cfg s) @ '' closing connection'') s)
      else if verb \<in> {''AUTH'', ''VRFY'', ''EXPN'', ''ETRN'', ''HELP''} then
        (Continue, reply E 502 ''Command not implemented'' s)
      else if verb = '''' then (Continue, reply E 500 ''Syntax error'' s)
      else (Continue, reply E 500 ''Syntax error, command unrecognised'' s))"

definition turn :: "'w env \<Rightarrow> 'w session \<Rightarrow> ctl \<times> 'w session" where
  "turn E s =
     (case readCommand E s of
        (Inl e, s1) \<Rightarrow> (Stop, if e = LineTooLong then reply E 500 ''Line too long'' s1 else s1)
      | (Inr line, s1) \<Rightarrow>
          (case splitCommand (e_lib E) line of (verb, arg) \<Rightarrow> dispatch_verb E verb arg s1))"

section \<open>What the operations leave alone\<close>

lemma reply_simps [simp, frame]:
  "s_cfg (reply E c t s) = s_cfg s" "s_mode (reply E c t s) = s_mode s"
  "encrypted (reply E c t s) = encrypted s" "peerIP (reply E c t s) = peerIP s"
  "s_deadline (reply E c t s) = s_deadline s" "helo (reply E c t s) = helo s"
  "s_from (reply E c t s) = s_from s" "s_rcpt (reply E c t s) = s_rcpt s"
  "s_route (reply E c t s) = s_route s" "inTx (reply E c t s) = inTx s" "s_r (reply E c t s) = s_r s"
  "s_log (reply E c t s) = s_log s" "s_sent (reply E c t s) = s_sent s"
  "s_out (reply E c t s) = s_out s @ [(encrypted s, reply_wire c t)]"
  "s_world (reply E c t s) = snd (e_now E (s_world s))"
  by (simp_all add: reply_def say_def split: prod.split)

lemma replyMulti_simps [simp, frame]:
  "s_cfg (replyMulti E c ls s) = s_cfg s" "s_mode (replyMulti E c ls s) = s_mode s"
  "encrypted (replyMulti E c ls s) = encrypted s" "peerIP (replyMulti E c ls s) = peerIP s"
  "s_deadline (replyMulti E c ls s) = s_deadline s" "helo (replyMulti E c ls s) = helo s"
  "s_from (replyMulti E c ls s) = s_from s" "s_rcpt (replyMulti E c ls s) = s_rcpt s"
  "s_route (replyMulti E c ls s) = s_route s" "inTx (replyMulti E c ls s) = inTx s" "s_r (replyMulti E c ls s) = s_r s"
  "s_log (replyMulti E c ls s) = s_log s" "s_sent (replyMulti E c ls s) = s_sent s"
  "s_out (replyMulti E c ls s) = s_out s @ [(encrypted s, replyMulti_wire c ls)]"
  "s_world (replyMulti E c ls s) = snd (e_now E (s_world s))"
  by (simp_all add: replyMulti_def say_def split: prod.split)

lemma log_simps [simp, frame]:
  "s_cfg (log ev s) = s_cfg s" "s_mode (log ev s) = s_mode s" "encrypted (log ev s) = encrypted s"
  "peerIP (log ev s) = peerIP s" "s_deadline (log ev s) = s_deadline s" "helo (log ev s) = helo s"
  "s_from (log ev s) = s_from s" "s_rcpt (log ev s) = s_rcpt s" "s_route (log ev s) = s_route s"
  "inTx (log ev s) = inTx s" "s_r (log ev s) = s_r s" "s_log (log ev s) = s_log s @ [ev]"
  "s_sent (log ev s) = s_sent s" "s_out (log ev s) = s_out s" "s_world (log ev s) = s_world s"
  by (simp_all add: log_def)

lemma resetTx_simps [simp, frame]:
  "s_cfg (resetTx s) = s_cfg s" "s_mode (resetTx s) = s_mode s" "encrypted (resetTx s) = encrypted s"
  "peerIP (resetTx s) = peerIP s" "s_deadline (resetTx s) = s_deadline s" "helo (resetTx s) = helo s"
  "s_from (resetTx s) = ''''" "s_rcpt (resetTx s) = ''''" "s_route (resetTx s) = None"
  "inTx (resetTx s) = False" "s_r (resetTx s) = s_r s" "s_log (resetTx s) = s_log s"
  "s_sent (resetTx s) = s_sent s" "s_out (resetTx s) = s_out s" "s_world (resetTx s) = s_world s"
  by (simp_all add: resetTx_def)

lemma readBody_frame:
  "readBody E lim b s = (x, s1) \<Longrightarrow>
     \<exists>r w. s1 = s\<lparr>s_r := r, s_world := w\<rparr> \<and> size r \<le> size (s_r s)"
proof (induction E lim b s rule: readBody.induct)
  case (1 E lim b s)
  obtain e s2 where d: "setReadDeadline E s = (e, s2)" by fastforce
  then obtain w where s2: "s2 = s\<lparr>s_world := w\<rparr>" using setReadDeadline_frame by blast
  obtain y b2 r2 where t: "body_turn lim b (s_r s2) = (y, b2, r2)" by (metis prod_cases3)
  have le: "size r2 \<le> size (s_r s)" using body_turn_le [OF t] s2 by simp
  show ?case
  proof (cases "e = None \<and> y = None")
    case True
    with "1.prems" d t have "readBody E lim b2 (s2\<lparr>s_r := r2\<rparr>) = (x, s1)"
      by (simp add: readBody.simps [of E lim b s])
    with "1.IH" [OF d [symmetric] _ t [symmetric] _ refl] True obtain r w where
      "s1 = s2\<lparr>s_r := r2\<rparr>\<lparr>s_r := r, s_world := w\<rparr>" "size r \<le> size r2" by auto
    with s2 le show ?thesis by (intro exI [of _ r] exI [of _ w]) simp
  next
    case False
    then have "s1 = s\<lparr>s_r := s_r s, s_world := w\<rparr> \<or> s1 = s\<lparr>s_r := r2, s_world := w\<rparr>"
      using "1.prems" d t s2 by (auto simp: readBody.simps [of E lim b s] split: option.splits)
    with le show ?thesis by (elim disjE) (intro exI conjI, assumption, simp)+
  qed
qed

text \<open>The relation between a session and a later state of it.\<close>

definition later :: "'w session \<Rightarrow> 'w session \<Rightarrow> bool" where
  "later s s1 \<longleftrightarrow>
     s_cfg s1 = s_cfg s \<and> s_mode s1 = s_mode s \<and> peerIP s1 = peerIP s \<and> s_deadline s1 = s_deadline s \<and>
     (encrypted s1 \<and> \<not> encrypted s \<or>
      encrypted s1 = encrypted s \<and> size (s_r s1) \<le> size (s_r s))"

lemma later_refl [simp]: "later s s" by (simp add: later_def)

lemma later_trans: "later s t \<Longrightarrow> later t u \<Longrightarrow> later s u"
  unfolding later_def by auto

lemma readCommand_frame:
  assumes "readCommand E s = (x, s1)"
  shows "\<exists>r w. s1 = s\<lparr>s_r := r, s_world := w\<rparr> \<and> size r \<le> size (s_r s) \<and>
     (\<forall>l. x = Inr l \<longrightarrow> size r < size (s_r s))"
proof -
  obtain e s2 where d: "setReadDeadline E s = (e, s2)" by fastforce
  then obtain w where s2: "s2 = s\<lparr>s_world := w\<rparr>" using setReadDeadline_frame by blast
  obtain y r2 where t: "readLine maxCommandLine (s_r s2) = (y, r2)" by fastforce
  show ?thesis
  proof (cases e)
    case (Some _)
    with assms d s2 have "s1 = s\<lparr>s_r := s_r s, s_world := w\<rparr>" "\<forall>l. x \<noteq> Inr l"
      by (auto simp: readCommand_def)
    then show ?thesis by (intro exI conjI) (assumption, simp_all)
  next
    case None
    have le: "size r2 \<le> size (s_r s)" using readLine_le [OF t] s2 by simp
    have "s1 = s\<lparr>s_r := r2, s_world := w\<rparr>"
      using assms d t s2 None by (cases y) (auto simp: readCommand_def)
    moreover have "size r2 < size (s_r s)" if "x = Inr l" for l
      using assms d t s2 None that readLine_shorter [of maxCommandLine "s_r s2" _ r2]
      by (cases y) (simp_all add: readCommand_def)
    ultimately show ?thesis using le by blast
  qed
qed

lemma submit_frame:
  assumes "submit E r body s = (re, s1)"
  shows "\<exists>m w. s1 = s\<lparr>s_sent := s_sent s @ [m], s_world := w\<rparr> \<and> m_From m = s_from s \<and> m_To m = s_rcpt s \<and>
     m_Route m = s_route s \<and> m_Body m = body \<and> m_PeerIP m = peerIP s"
  using assms by (auto simp: submit_def Let_def split: prod.splits)

lemma handleSTARTTLS_later: "later s (snd (handleSTARTTLS E arg s))"
  by (simp add: handleSTARTTLS_def later_def Let_def split: prod.split option.split)

lemma handleMail_later: "later s (handleMail E arg s)"
  by (simp add: handleMail_def later_def Let_def split: prod.split option.split Outcome.split)

lemma handleRcpt_later: "later s (snd (handleRcpt E arg s))"
  by (simp add: handleRcpt_def later_def split: option.split)

text \<open>The ways \<^verbatim>\<open>DATA\<close> ends: refused, cut off, or past the commit point.\<close>

lemma handleData_cases:
  obtains (refused) code t where "handleData E arg s = (Continue, reply E code t s)"
  | (cut) r w where "handleData E arg s = (Stop, (reply E 354 ''Send data, end with a single dot'' s)\<lparr>s_r := r, s_world := w\<rparr>)"
      "size r \<le> size (s_r s)"
  | (committed) body oversize s1 r w where "inTx s" "s_rcpt s \<noteq> ''''" "arg = ''''"
      "readBody E (MaxMessageBytes (c_Limits (s_cfg s))) body_init
         (reply E 354 ''Send data, end with a single dot'' s) = (Inr (body, oversize), s1)"
      "s1 = (reply E 354 ''Send data, end with a single dot'' s)\<lparr>s_r := r, s_world := w\<rparr>"
      "size r \<le> size (s_r s)"
proof -
  let ?s = "reply E 354 ''Send data, end with a single dot'' s"
  obtain x s1 where rb: "readBody E (MaxMessageBytes (c_Limits (s_cfg s))) body_init ?s = (x, s1)" by fastforce
  then obtain r w where f: "s1 = ?s\<lparr>s_r := r, s_world := w\<rparr>" "size r \<le> size (s_r s)"
    using readBody_frame [OF rb] by auto
  consider "arg \<noteq> '''' \<or> \<not> inTx s \<or> s_rcpt s = ''''" | e where "arg = ''''" "inTx s" "s_rcpt s \<noteq> ''''" "x = Inl e"
    | body oversize where "arg = ''''" "inTx s" "s_rcpt s \<noteq> ''''" "x = Inr (body, oversize)"
    by (cases x) auto
  then show ?thesis
  proof cases
    case 1
    then have "\<exists>code t. handleData E arg s = (Continue, reply E code t s)"
      by (cases "arg = ''''") (auto simp: handleData_def)
    then show ?thesis using refused by blast
  next
    case 2
    then have "handleData E arg s = (Stop, ?s\<lparr>s_r := r, s_world := w\<rparr>)" using rb f by (simp add: handleData_def)
    then show ?thesis using cut f(2) by blast
  next
    case (3 body oversize)
    then show ?thesis using committed rb f by blast
  qed
qed

lemma handleData_committed:
  assumes "inTx s" "s_rcpt s \<noteq> ''''" "arg = ''''"
    "readBody E (MaxMessageBytes (c_Limits (s_cfg s))) body_init
       (reply E 354 ''Send data, end with a single dot'' s) = (Inr (body, oversize), s1)"
    "s_route s1 = Some r"
  shows "handleData E arg s =
     (if oversize then (Continue, finish E (log (LogOversize (s_from s1) (s_rcpt s1) (r_Recipient r)) s1))
      else (case submit E r body s1 of
              ((res, derr), s2) \<Rightarrow>
                (Continue, finish E (log (result_event res (s_from s2) (s_rcpt s2) (r_Recipient r) (length body) derr) s2))))"
  using assms by (simp add: handleData_def)

lemma handleData_later: "later s (snd (handleData E arg s))"
proof (cases rule: handleData_cases [of E arg s])
  case (committed body oversize s1 r w)
  show ?thesis
  proof (cases "s_route s1")
    case None
    then have "handleData E arg s = (Panic, s1)" using committed by (simp add: handleData_def)
    then show ?thesis using committed(5,6) by (simp add: later_def)
  next
    case (Some rt)
    obtain res derr s2 where sub: "submit E rt body s1 = ((res, derr), s2)" by (metis prod.collapse)
    from submit_frame [OF sub] obtain m w2 where "s2 = s1\<lparr>s_sent := s_sent s1 @ [m], s_world := w2\<rparr>" by blast
    with committed(5,6) handleData_committed [OF committed(1-4) Some] sub show ?thesis
      by (simp add: later_def finish_def)
  qed
qed (simp_all add: later_def)

text \<open>A property of the result of a command follows from the handlers.\<close>

lemma dispatch_verb_rule:
  assumes "P (Continue, handleEHLO E arg s)" "P (Continue, handleHELO E arg s)" "P (handleSTARTTLS E arg s)"
    "P (if \<not> inTx (handleMail E arg s) \<and> s_from (handleMail E arg s) = '''' then Stop else Continue, handleMail E arg s)"
    "P (handleRcpt E arg s)" "P (handleData E arg s)" "P (Continue, reply E 250 ''OK'' (resetTx s))"
    "\<And>ctl code t. ctl \<noteq> Panic \<Longrightarrow> 100 \<le> code \<Longrightarrow> code < 1000 \<Longrightarrow>
       LF \<notin> set t \<or> t = Hostname (s_cfg s) @ '' closing connection'' \<Longrightarrow> P (ctl, reply E code t s)"
  shows "P (dispatch_verb E verb arg s)"
proof -
  have i: "P a \<Longrightarrow> P b \<Longrightarrow> P (if c then a else b)" for a b c by simp
  show ?thesis
    unfolding dispatch_verb_def Let_def by (intro i assms(1-7)) (rule assms(8), simp_all)+
qed

lemma dispatch_verb_later: "later s (snd (dispatch_verb E verb arg s))"
  by (rule dispatch_verb_rule)
    (simp_all add: handleSTARTTLS_later handleMail_later handleRcpt_later handleData_later,
     simp_all add: later_def handleEHLO_def handleHELO_def Let_def)

lemma turn_later: "turn E s = (c, s1) \<Longrightarrow> later s s1"
proof -
  assume t: "turn E s = (c, s1)"
  obtain x s2 where r: "readCommand E s = (x, s2)" by fastforce
  then have l: "later s s2" by (auto simp: later_def dest!: readCommand_frame)
  show ?thesis
  proof (cases x)
    case (Inl e)
    with t r l show ?thesis by (auto simp: turn_def later_def split: if_splits)
  next
    case (Inr line)
    with t r have "later s2 s1"
      using dispatch_verb_later [of s2 E] by (auto simp: turn_def split: prod.splits) (metis snd_conv)
    with l show ?thesis by (rule later_trans)
  qed
qed

lemma turn_progress:
  assumes "turn E s = (Continue, s1)"
  shows "\<not> encrypted s \<and> encrypted s1 \<or> encrypted s1 = encrypted s \<and> size (s_r s1) < size (s_r s)"
proof -
  obtain x s2 where r: "readCommand E s = (x, s2)" by fastforce
  with assms obtain line where "x = Inr line" by (cases x) (auto simp: turn_def)
  with assms r have "later s2 s1" "size (s_r s2) < size (s_r s)" "encrypted s2 = encrypted s"
    using readCommand_frame [OF r] dispatch_verb_later [of s2 E]
    by (auto simp: turn_def split: prod.splits) (metis snd_conv)
  then show ?thesis by (auto simp: later_def)
qed

function loop :: "'w env \<Rightarrow> 'w session \<Rightarrow> ctl \<times> 'w session" where
  "loop E s = (case turn E s of (Continue, s1) \<Rightarrow> loop E s1 | (c, s1) \<Rightarrow> (c, s1))"
  by pat_completeness auto
termination
  by (relation "inv_image (measure (\<lambda>b. if b then 0 else 1) <*lex*> measure id)
      (\<lambda>(E, s). (encrypted s, size (s_r s)))")
    (auto dest!: turn_progress [OF sym])

declare loop.simps [simp del]

text \<open>\<^verbatim>\<open>handleConn\<close>, from the remote address and the stream of the connection: the
  session it builds, the banner and the loop.\<close>

definition new_session :: "'w env \<Rightarrow> Config \<Rightarrow> TLSMode \<Rightarrow> string \<Rightarrow> reader \<Rightarrow> 'w \<Rightarrow> 'w session" where
  "new_session E cfg mode remote stream w =
     (let host = (case SplitHostPort (e_lib E) remote of None \<Rightarrow> '''' | Some (h, _) \<Rightarrow> h);
          ip = ParseIP (e_lib E) host;
          (now, w1) = e_now E w
      in \<lparr>s_cfg = cfg, s_mode = mode, encrypted = (mode = TLSImplicit), peerIP = ip,
          s_deadline = now + SessionTimeout (c_Limits cfg), helo = '''', s_from = '''', s_rcpt = '''',
          s_route = None, inTx = False, s_r = stream, s_wdeadline = 0, s_out = [], s_log = [], s_sent = [],
          s_world = w1\<rparr>)"

definition handleConn ::
    "'w env \<Rightarrow> Config \<Rightarrow> TLSMode \<Rightarrow> string \<Rightarrow> reader \<Rightarrow> 'w \<Rightarrow> ctl \<times> 'w session" where
  "handleConn E cfg mode remote stream w =
     loop E (reply E 220 (Hostname cfg @ '' ready'') (new_session E cfg mode remote stream w))"

section \<open>The invariant of a session\<close>

lemma readBody_loop:
  "readBody E lim b s = (Inr x, s1) \<Longrightarrow> body_loop lim b (s_r s) = (Inr x, s_r s1)"
proof (induction E lim b s rule: readBody.induct)
  case (1 E lim b s)
  obtain e s2 where d: "setReadDeadline E s = (e, s2)" by fastforce
  with "1.prems" have e: "e = None" by (cases e) (auto simp: readBody.simps [of E lim b s])
  have r: "s_r s2 = s_r s" by (rule setReadDeadline_r [OF d])
  obtain y b2 r2 where t: "body_turn lim b (s_r s2) = (y, b2, r2)" by (metis prod_cases3)
  show ?case
  proof (cases y)
    case None
    with "1.prems" d e t have "readBody E lim b2 (s2\<lparr>s_r := r2\<rparr>) = (Inr x, s1)"
      by (simp add: readBody.simps [of E lim b s])
    with "1.IH" [OF d [symmetric] e t [symmetric] None refl] have "body_loop lim b2 r2 = (Inr x, s_r s1)" by simp
    with t r None show ?thesis by (simp add: body_loop.simps [of lim b])
  next
    case (Some z)
    with "1.prems" d e t r show ?thesis
      by (auto simp: readBody.simps [of E lim b s] body_loop.simps [of lim b])
  qed
qed

text \<open>What holds of a message that has passed both gates.\<close>

definition gated :: "'w env \<Rightarrow> Config \<Rightarrow> 8 word list \<Rightarrow> Message \<Rightarrow> bool" where
  "gated E cfg ip m \<longleftrightarrow>
     authorised (e_lib E) (e_resolver E) cfg ip (m_From m) \<and> m_PeerIP m = ip \<and>
     m_Route m \<noteq> None \<and> m_Route m = LookupRoute (e_lib E) cfg (m_To m) \<and>
     int (length (m_Body m)) \<le> MaxMessageBytes (c_Limits cfg) \<and>
     (\<exists>ls. list_all tidy ls \<and> m_Body m = text_of ls) \<and>
     (lower_keeps (e_lib E) \<longrightarrow> LF \<notin> set (m_From m) \<and> LF \<notin> set (m_To m))"

definition short :: "reader \<Rightarrow> bool" where
  "short r \<longleftrightarrow> length (rin r) < 2 ^ 61"

definition tx_inv :: "'w env \<Rightarrow> 'w session \<Rightarrow> bool" where
  "tx_inv E s \<longleftrightarrow>
     (if inTx s then
        helo s \<noteq> '''' \<and> authorised (e_lib E) (e_resolver E) (s_cfg s) (peerIP s) (s_from s) \<and>
        (if s_route s = None then s_rcpt s = '''' else s_route s = LookupRoute (e_lib E) (s_cfg s) (s_rcpt s)) \<and>
        (lower_keeps (e_lib E) \<longrightarrow> LF \<notin> set (s_from s) \<and> LF \<notin> set (s_rcpt s))
      else s_from s = '''' \<and> s_rcpt s = '''' \<and> s_route s = None)"

definition session_inv :: "'w env \<Rightarrow> 'w session \<Rightarrow> bool" where
  "session_inv E s \<longleftrightarrow> tx_inv E s \<and> short (s_r s) \<and> list_all (gated E (s_cfg s) (peerIP s)) (s_sent s)"

definition env_ok :: "'w env \<Rightarrow> Config \<Rightarrow> bool" where
  "env_ok E cfg \<longleftrightarrow> 0 \<le> MaxMessageBytes (c_Limits cfg) \<and>
     (\<forall>i w r w'. e_handshake E i w = (Some r, w') \<longrightarrow> short r)"

lemma tx_inv_cong:
  "tx_inv E s \<Longrightarrow> s_cfg t = s_cfg s \<Longrightarrow> peerIP t = peerIP s \<Longrightarrow> helo t = helo s \<Longrightarrow> s_from t = s_from s \<Longrightarrow>
     s_rcpt t = s_rcpt s \<Longrightarrow> s_route t = s_route s \<Longrightarrow> inTx t = inTx s \<Longrightarrow> tx_inv E t"
  by (simp add: tx_inv_def)

lemma tx_inv_reset: "\<not> inTx s \<Longrightarrow> s_from s = '''' \<Longrightarrow> s_rcpt s = '''' \<Longrightarrow> s_route s = None \<Longrightarrow> tx_inv E s"
  by (simp add: tx_inv_def)

lemma reply_inv [simp]: "session_inv E (reply E c t s) \<longleftrightarrow> session_inv E s"
  by (simp add: session_inv_def tx_inv_def)

lemma replyMulti_inv [simp]: "session_inv E (replyMulti E c ls s) \<longleftrightarrow> session_inv E s"
  by (simp add: session_inv_def tx_inv_def)

lemma log_inv [simp]: "session_inv E (log ev s) \<longleftrightarrow> session_inv E s"
  by (simp add: session_inv_def tx_inv_def)

lemma world_inv [simp]: "session_inv E (s\<lparr>s_world := w\<rparr>) \<longleftrightarrow> session_inv E s"
  by (simp add: session_inv_def tx_inv_def)

lemma read_inv: "session_inv E s \<Longrightarrow> size r \<le> size (s_r s) \<Longrightarrow> session_inv E (s\<lparr>s_r := r\<rparr>)"
  by (auto simp: session_inv_def tx_inv_def short_def)

lemma resetTx_inv: "session_inv E s \<Longrightarrow> session_inv E (resetTx (s\<lparr>helo := h\<rparr>))"
  "session_inv E s \<Longrightarrow> session_inv E (resetTx s)"
  by (simp_all add: session_inv_def tx_inv_reset)

lemma handleEHLO_inv: "session_inv E s \<Longrightarrow> session_inv E (handleEHLO E arg s)"
  by (simp add: handleEHLO_def Let_def resetTx_inv)

lemma handleHELO_inv: "session_inv E s \<Longrightarrow> session_inv E (handleHELO E arg s)"
  by (simp add: handleHELO_def Let_def resetTx_inv)

lemma handleSTARTTLS_inv:
  assumes "session_inv E s" "env_ok E (s_cfg s)"
  shows "session_inv E (snd (handleSTARTTLS E arg s))"
proof -
  have up: "session_inv E (resetTx ((reply E c t s)\<lparr>s_r := r, encrypted := True, helo := '''', s_world := w\<rparr>))"
    if "short r" for c t r w
    using that assms(1) by (simp add: session_inv_def tx_inv_reset)
  show ?thesis
    using assms by (auto simp: handleSTARTTLS_def env_ok_def Let_def split: prod.split option.split intro!: up)
qed

lemma handleMail_inv:
  assumes "session_inv E s" "LF \<notin> set arg"
  shows "session_inv E (handleMail E arg s)"
proof -
  have "session_inv E (s\<lparr>s_world := w, s_from := path, inTx := True\<rparr>)"
    if h: "helo s \<noteq> ''''" "\<not> inTx s" and p: "parsePath (e_lib E) arg ''FROM:'' = Some path"
      and d: "Decide (e_lib E) (e_resolver E) (s_cfg s) (peerIP s) path (s_world s) = (d, w)" "d_Outcome d = Admit"
    for path d w
  proof -
    have "lower_keeps (e_lib E) \<longrightarrow> LF \<notin> set path"
      using parsePath_chars [OF _ _ p, of LF] assms(2) by (auto simp: octet_def)
    with assms(1) h Decide_Admit [OF d] show ?thesis
      by (auto simp: session_inv_def tx_inv_def)
  qed
  with assms(1) show ?thesis
    by (auto simp: handleMail_def Let_def split: option.split prod.split Outcome.split)
qed

lemma handleRcpt_inv:
  assumes "session_inv E s" "LF \<notin> set arg"
  shows "session_inv E (snd (handleRcpt E arg s))"
proof -
  have "session_inv E (s\<lparr>s_rcpt := path, s_route := Some r\<rparr>)"
    if "inTx s" "parsePath (e_lib E) arg ''TO:'' = Some path" "LookupRoute (e_lib E) (s_cfg s) path = Some r" for path r
  proof -
    have "lower_keeps (e_lib E) \<longrightarrow> LF \<notin> set path"
      using parsePath_chars [OF _ _ that(2), of LF] assms(2) by (auto simp: octet_def)
    with assms(1) that show ?thesis by (auto simp: session_inv_def tx_inv_def)
  qed
  with assms(1) show ?thesis by (auto simp: handleRcpt_def split: option.split)
qed

lemma new_session_inv:
  "short stream \<Longrightarrow> session_inv E (new_session E cfg mode remote stream w)"
  "s_cfg (new_session E cfg mode remote stream w) = cfg"
  by (simp_all add: new_session_def session_inv_def tx_inv_def Let_def split: prod.split)

lemma committed_body:
  assumes "readBody E (MaxMessageBytes (c_Limits (s_cfg s))) body_init s = (Inr (body, oversize), s1)"
    "session_inv E s" "env_ok E (s_cfg s)"
  shows "int (length body) \<le> MaxMessageBytes (c_Limits (s_cfg s)) \<and> (\<exists>ls. list_all tidy ls \<and> body = text_of ls)"
proof -
  have "\<exists>ls. list_all tidy ls \<and> [] = text_of ls" by (intro exI [of _ "[]"]) simp
  then have "body_inv (MaxMessageBytes (c_Limits (s_cfg s))) body_init (s_r s)"
    using assms(2,3) by (simp add: body_inv_def body_init_def session_inv_def short_def env_ok_def)
  from body_loop_inv [OF this _ readBody_loop [OF assms(1)]] assms(3) show ?thesis
    by (simp add: env_ok_def)
qed

lemma submit_inv:
  assumes "submit E r body s = (re, s1)" "session_inv E s" "inTx s" "s_route s = Some r"
    "int (length body) \<le> MaxMessageBytes (c_Limits (s_cfg s))" "\<exists>ls. list_all tidy ls \<and> body = text_of ls"
  shows "session_inv E s1"
proof -
  obtain m w where s1: "s1 = s\<lparr>s_sent := s_sent s @ [m], s_world := w\<rparr>" "m_From m = s_from s" "m_To m = s_rcpt s"
    "m_Route m = s_route s" "m_Body m = body" "m_PeerIP m = peerIP s"
    using submit_frame [OF assms(1)] by blast
  moreover have "LookupRoute (e_lib E) (s_cfg s) (s_rcpt s) = Some r"
    using assms(2-4) by (simp add: session_inv_def tx_inv_def)
  ultimately have "gated E (s_cfg s) (peerIP s) m"
    using assms(2-6) by (simp add: gated_def session_inv_def tx_inv_def)
  with assms(2) s1(1) show ?thesis by (simp add: session_inv_def tx_inv_def)
qed

lemma finish_inv: "session_inv E s \<Longrightarrow> session_inv E (finish E s)"
  by (simp add: finish_def resetTx_inv)

text \<open>Past the commit point the route is there.\<close>

lemma committed_route:
  assumes "session_inv E s" "inTx s" "s_rcpt s \<noteq> ''''"
  shows "\<exists>r. s_route s = Some r"
  using assms by (auto simp: session_inv_def tx_inv_def split: if_splits)

lemma handleData_inv:
  assumes "session_inv E s" "env_ok E (s_cfg s)"
  shows "session_inv E (snd (handleData E arg s)) \<and> fst (handleData E arg s) \<noteq> Panic"
proof (cases rule: handleData_cases [of E arg s])
  case (committed body oversize s1 r w)
  let ?s = "reply E 354 ''Send data, end with a single dot'' s"
  have s: "session_inv E ?s" using assms(1) by simp
  have s1: "session_inv E s1" unfolding committed(5) using s committed(6) by (simp add: read_inv)
  obtain rt where rt: "s_route s1 = Some rt"
    using committed_route [OF s1] committed(1,2,5) by auto
  have b: "int (length body) \<le> MaxMessageBytes (c_Limits (s_cfg s1))" "\<exists>ls. list_all tidy ls \<and> body = text_of ls"
    using committed_body [of E ?s body oversize s1] committed(4,5) s assms(2) by auto
  obtain res derr s2 where sub: "submit E rt body s1 = ((res, derr), s2)" by (metis prod.collapse)
  have "session_inv E s2"
    by (rule submit_inv [OF sub s1 _ rt b]) (use committed in simp)
  with s1 show ?thesis
    unfolding handleData_committed [OF committed(1-4) rt] by (simp add: sub finish_inv)
next
  case (cut r w)
  with assms(1) show ?thesis by (simp add: read_inv)
qed (use assms in simp)

lemma dispatch_verb_inv:
  assumes "session_inv E s" "env_ok E (s_cfg s)" "LF \<notin> set arg"
  shows "session_inv E (snd (dispatch_verb E verb arg s)) \<and> fst (dispatch_verb E verb arg s) \<noteq> Panic"
proof -
  have "fst (handleSTARTTLS E arg s) \<noteq> Panic"
    by (simp add: handleSTARTTLS_def Let_def split: prod.split option.split)
  moreover have "fst (handleRcpt E arg s) \<noteq> Panic"
    by (simp add: handleRcpt_def split: option.split)
  ultimately show ?thesis
    by (intro dispatch_verb_rule [where P = "\<lambda>x. session_inv E (snd x) \<and> fst x \<noteq> Panic"])
      (simp_all add: assms handleEHLO_inv handleHELO_inv handleSTARTTLS_inv handleMail_inv handleRcpt_inv
        handleData_inv resetTx_inv)
qed

lemma readCommand_line:
  assumes "readCommand E s = (Inr line, s1)" shows "LF \<notin> set line"
proof -
  obtain e s2 where d: "setReadDeadline E s = (e, s2)" by fastforce
  with assms have "e = None" by (cases e) (auto simp: readCommand_def)
  with d assms obtain l r where l: "readLine maxCommandLine (s_r s2) = (Inr l, r)" "HasSuffix l CRLF" "line = TrimSuffix l CRLF"
    by (auto simp: readCommand_def split: prod.splits sum.splits if_splits)
  obtain a where "l = a @ [LF]" "LF \<notin> set a" using readLine_Inr [OF l(1)] by blast
  moreover obtain t where "l = t @ CRLF" using l(2) by (auto simp: HasSuffix_iff)
  ultimately show ?thesis using l(3) by (auto simp: append_eq_append_conv2 append_eq_Cons_conv Cons_eq_append_conv)
qed

lemma turn_inv:
  assumes "session_inv E s" "env_ok E (s_cfg s)"
  shows "session_inv E (snd (turn E s)) \<and> fst (turn E s) \<noteq> Panic \<and> s_cfg (snd (turn E s)) = s_cfg s"
proof -
  obtain x s2 where r: "readCommand E s = (x, s2)" by fastforce
  then have s2: "session_inv E s2" "s_cfg s2 = s_cfg s"
    using readCommand_frame [OF r] assms(1) by (auto simp: read_inv)
  have c: "s_cfg (snd (turn E s)) = s_cfg s"
    using turn_later [of E s "fst (turn E s)" "snd (turn E s)"] by (simp add: later_def)
  show ?thesis
  proof (cases x)
    case (Inl e)
    with s2 r c show ?thesis by (simp add: turn_def)
  next
    case (Inr line)
    obtain verb arg where sc: "splitCommand (e_lib E) line = (verb, arg)" by fastforce
    have "LF \<notin> set arg" using readCommand_line r Inr splitCommand_arg [OF sc] by blast
    with dispatch_verb_inv [OF s2(1)] s2 assms(2) r Inr sc c show ?thesis by (simp add: turn_def)
  qed
qed

lemma loop_inv:
  assumes "session_inv E s" "env_ok E (s_cfg s)"
  shows "session_inv E (snd (loop E s)) \<and> fst (loop E s) = Stop \<and> later s (snd (loop E s))"
  using assms
proof (induction E s rule: loop.induct)
  case (1 E s)
  obtain c s1 where t: "turn E s = (c, s1)" by fastforce
  have i: "session_inv E s1" "c \<noteq> Panic" "s_cfg s1 = s_cfg s" "later s s1"
    using turn_inv [OF "1.prems"] turn_later [OF t] t by simp_all
  show ?case
  proof (cases c)
    case Continue
    with "1.IH" [OF t [symmetric] Continue] i "1.prems" t show ?thesis
      by (auto simp: loop.simps [of E s] intro: later_trans)
  qed (use t i in \<open>simp_all add: loop.simps [of E s]\<close>)
qed

lemma handleConn_gated:
  assumes "handleConn E cfg mode remote stream w = (c, s)" "env_ok E cfg" "short stream"
  shows "c = Stop \<and> list_all (gated E cfg (peerIP s)) (s_sent s)"
proof -
  let ?s = "reply E 220 (Hostname cfg @ '' ready'') (new_session E cfg mode remote stream w)"
  have "session_inv E ?s" by (simp add: new_session_inv assms(3))
  from loop_inv [OF this] assms(1,2) have "session_inv E s" "c = Stop" "later ?s s"
    by (simp_all add: handleConn_def new_session_inv(2))
  then show ?thesis by (simp add: session_inv_def later_def new_session_inv(2))
qed

section \<open>The replies of a session\<close>

text \<open>A well-formed reply has a three-digit code and lines without line feeds. Everything a session
  writes is one, if the configured host name has no line feed.\<close>

definition reply_ok :: "string \<Rightarrow> bool" where
  "reply_ok x \<longleftrightarrow> (\<exists>n ls. 100 \<le> n \<and> n < 1000 \<and> ls \<noteq> [] \<and> (\<forall>l \<in> set ls. LF \<notin> set l) \<and> x = replyMulti_wire (int n) ls)"

lemma replyMulti_ok:
  assumes "100 \<le> c" "c < 1000" "ls \<noteq> []" "\<forall>l \<in> set ls. LF \<notin> set l" shows "reply_ok (replyMulti_wire c ls)"
  unfolding reply_ok_def using assms by (intro exI [of _ "nat c"] exI [of _ ls]) auto

lemma reply_ok [simp]: "100 \<le> c \<Longrightarrow> c < 1000 \<Longrightarrow> LF \<notin> set t \<Longrightarrow> reply_ok (reply_wire c t)"
  using replyMulti_ok [of c "[t]"] by (simp add: reply_wire_def)

definition speaks :: "'w session \<Rightarrow> bool" where
  "speaks s \<longleftrightarrow> LF \<notin> set (Hostname (s_cfg s)) \<and> (\<forall>(enc, x) \<in> set (s_out s). reply_ok x)"

lemma speaks_simps [simp]:
  "100 \<le> c \<Longrightarrow> c < 1000 \<Longrightarrow> LF \<notin> set t \<Longrightarrow> speaks (reply E c t s) \<longleftrightarrow> speaks s"
  "speaks (log ev s) \<longleftrightarrow> speaks s" "speaks (resetTx s) \<longleftrightarrow> speaks s"
  by (auto simp: speaks_def)

lemma handleEHLO_speaks: "speaks s \<Longrightarrow> LF \<notin> set arg \<Longrightarrow> speaks (handleEHLO E arg s)"
  by (auto simp: speaks_def handleEHLO_def Let_def itoa_LF simp del: replyMulti_wire.simps intro!: replyMulti_ok)

lemma handleHELO_speaks: "speaks s \<Longrightarrow> speaks (handleHELO E arg s)"
  by (auto simp: speaks_def handleHELO_def Let_def)

lemma handleSTARTTLS_speaks: "speaks s \<Longrightarrow> speaks (snd (handleSTARTTLS E arg s))"
  by (auto simp: speaks_def handleSTARTTLS_def Let_def split: prod.split option.split)

lemma handleMail_speaks: "speaks s \<Longrightarrow> speaks (handleMail E arg s)"
  by (simp add: handleMail_def Let_def split: prod.split option.split Outcome.split) (simp add: speaks_def)

lemma handleRcpt_speaks: "speaks s \<Longrightarrow> speaks (snd (handleRcpt E arg s))"
  by (simp add: handleRcpt_def split: option.split) (simp add: speaks_def)

lemma handleData_speaks:
  assumes "speaks s" shows "speaks (snd (handleData E arg s))"
proof -
  let ?s = "reply E 354 ''Send data, end with a single dot'' s"
  obtain x s1 where rb: "readBody E (MaxMessageBytes (c_Limits (s_cfg s))) body_init ?s = (x, s1)" by fastforce
  have s1: "speaks s1" using readBody_frame [OF rb] assms by (auto simp: speaks_def)
  have "speaks s2" if "submit E r body s1 = (re, s2)" for r body re s2
    using submit_frame [OF that] s1 by (auto simp: speaks_def)
  with s1 assms rb show ?thesis
    by (auto simp: handleData_def finish_def split: sum.split option.split prod.split)
qed

lemma dispatch_verb_speaks:
  assumes "speaks s" "LF \<notin> set arg" shows "speaks (snd (dispatch_verb E verb arg s))"
  by (rule dispatch_verb_rule)
    (use assms in \<open>simp_all add: handleEHLO_speaks handleHELO_speaks handleSTARTTLS_speaks handleMail_speaks
      handleRcpt_speaks handleData_speaks\<close>, auto simp: speaks_def)

lemma turn_speaks:
  assumes "speaks s" shows "speaks (snd (turn E s))"
proof -
  obtain x s2 where r: "readCommand E s = (x, s2)" by fastforce
  then have s2: "speaks s2" using readCommand_frame [OF r] assms by (auto simp: speaks_def)
  show ?thesis
  proof (cases x)
    case (Inl e)
    with s2 r show ?thesis by (auto simp: turn_def speaks_def)
  next
    case (Inr line)
    obtain verb arg where sc: "splitCommand (e_lib E) line = (verb, arg)" by fastforce
    have "LF \<notin> set arg" using readCommand_line r Inr splitCommand_arg [OF sc] by blast
    with dispatch_verb_speaks [OF s2] r Inr sc show ?thesis by (simp add: turn_def)
  qed
qed

lemma loop_speaks: "speaks s \<Longrightarrow> speaks (snd (loop E s))"
proof (induction E s rule: loop.induct)
  case (1 E s)
  obtain c s1 where t: "turn E s = (c, s1)" by fastforce
  with turn_speaks [OF "1.prems", of E] have "speaks s1" by simp
  with "1.IH" [OF t [symmetric]] t show ?case by (cases c) (simp_all add: loop.simps [of E s])
qed

lemma handleConn_speaks:
  assumes "handleConn E cfg mode remote stream w = (c, s)" "LF \<notin> set (Hostname cfg)" "(enc, x) \<in> set (s_out s)"
  shows "reply_ok x"
proof -
  let ?s = "reply E 220 (Hostname cfg @ '' ready'') (new_session E cfg mode remote stream w)"
  have "speaks ?s" using assms(2) by (simp add: speaks_def new_session_def Let_def split: prod.split)
  from loop_speaks [OF this, of E] assms(1,3) show ?thesis by (auto simp: handleConn_def speaks_def)
qed

section \<open>The world of a session\<close>

text \<open>What the session relies on when its collaborators share state: each of them keeps an invariant of
  the world, the dispatcher for a message that is new and has passed the gates. A whole session then
  keeps it.\<close>

locale resolver_world =
  fixes R :: "'w Resolver" and I :: "'w \<Rightarrow> bool"
  assumes LookupAddr_keeps: "I w \<Longrightarrow> I (snd (LookupAddr R a w))"
    and LookupIPAddr_keeps: "I w \<Longrightarrow> I (snd (LookupIPAddr R n w))"
    and CheckSPF_keeps: "I w \<Longrightarrow> I (snd (CheckSPF R ip d f w))"
begin

lemma fcrdns_keeps: "I w \<Longrightarrow> I (snd (fcrdns_loop G R ip ns w))"
proof (induction ns arbitrary: w)
  case (Cons n ns)
  let ?n = "ToLower G (TrimSuffix n ''.'')"
  obtain x w1 where l: "LookupIPAddr R ?n w = (x, w1)" by fastforce
  then have "I w1" using LookupIPAddr_keeps [OF Cons.prems, of ?n] by simp
  with l Cons.IH show ?case by (cases x) (simp_all add: Let_def)
qed simp

lemma FCrDNS_keeps:
  assumes "I w" shows "I (snd (FCrDNS G R ip w))"
proof -
  obtain x w1 where l: "LookupAddr R (IPString G ip) w = (x, w1)" by fastforce
  then have "I w1" using LookupAddr_keeps [OF assms, of "IPString G ip"] by simp
  with l fcrdns_keeps show ?thesis by (cases x) (simp_all add: FCrDNS_def)
qed

lemma spf_keeps: "I w \<Longrightarrow> I (snd (spf_decision R req ip f d rule name w))"
  using CheckSPF_keeps [of w ip d f] by (auto simp: spf_decision_def split: prod.split)

lemma Decide_keeps:
  assumes "I w" shows "I (snd (Decide G R cfg ip path w))"
proof -
  obtain name ok w1 where f: "FCrDNS G R ip w = ((name, ok), w1)" by (metis prod.collapse)
  then have "I w1" using FCrDNS_keeps [OF assms, of G ip] by simp
  with assms f spf_keeps show ?thesis
    by (auto simp: Decide_eq_spec decide_spec_def Let_def split: option.split)
qed

end

locale session_world = resolver_world "e_resolver E" I for E :: "'w env" and I :: "'w \<Rightarrow> bool" +
  assumes now_keeps: "I w \<Longrightarrow> I (snd (e_now E w))"
    and handshake_keeps: "I w \<Longrightarrow> I (snd (e_handshake E i w))"
    and deadline_keeps: "I w \<Longrightarrow> I (snd (e_SetReadDeadline E d w))"
    and submit_keeps: "I w \<Longrightarrow> m_Route m \<noteq> None \<Longrightarrow> int (length (m_Body m)) < 2 ^ 62 \<Longrightarrow>
       m_id m = fst (e_alloc E w) \<Longrightarrow> I (snd (e_dispatch E ctx m (snd (e_now E (snd (e_alloc E w))))))"
begin

lemma reply_keeps [simp]: "I (s_world s) \<Longrightarrow> I (s_world (reply E c t s))"
  "I (s_world s) \<Longrightarrow> I (s_world (replyMulti E c ls s))"
  by (simp_all add: now_keeps)

lemma setReadDeadline_keeps:
  assumes "I (s_world s)" shows "I (s_world (snd (setReadDeadline E s)))"
proof -
  have "I (snd (e_now E (snd (e_now E (s_world s)))))" using assms now_keeps by blast
  then show ?thesis using deadline_keeps by (simp add: setReadDeadline_def Let_def case_prod_beta)
qed

lemma readCommand_keeps: "I (s_world s) \<Longrightarrow> I (s_world (snd (readCommand E s)))"
  using setReadDeadline_keeps [of s] by (auto simp: readCommand_def split: prod.split option.split sum.split)

lemma readBody_keeps: "I (s_world s) \<Longrightarrow> readBody E lim b s = (x, s1) \<Longrightarrow> I (s_world s1)"
proof (induction "size (s_r s)" arbitrary: b s rule: less_induct)
  case less
  obtain e s2 where d: "setReadDeadline E s = (e, s2)" by fastforce
  with setReadDeadline_keeps [OF less.prems(1)] setReadDeadline_r [OF d]
  have s2: "I (s_world s2)" "s_r s2 = s_r s" by simp_all
  obtain y b2 r2 where t: "body_turn lim b (s_r s2) = (y, b2, r2)" by (metis prod_cases3)
  show ?case
  proof (cases "e = None \<and> y = None")
    case True
    then have "size r2 < size (s_r s)" using body_turn_shorter t s2(2) by metis
    moreover have "readBody E lim b2 (s2\<lparr>s_r := r2\<rparr>) = (x, s1)"
      using less.prems(2) d t True by (simp add: readBody.simps [of E lim b s])
    ultimately show ?thesis using less.hyps [of "s2\<lparr>s_r := r2\<rparr>" b2] s2(1) by simp
  next
    case False
    with less.prems(2) d t s2(1) show ?thesis
      by (auto simp: readBody.simps [of E lim b s] split: option.splits)
  qed
qed

lemma submit_world:
  assumes "I (s_world s)" "s_route s \<noteq> None" "int (length body) < 2 ^ 62"
  shows "I (s_world (snd (submit E r body s)))"
  using submit_keeps [OF assms(1), of "\<lparr>m_id = fst (e_alloc E (s_world s)), m_From = s_from s, m_To = s_rcpt s,
      m_Route = s_route s, m_Body = body, m_PeerIP = peerIP s,
      m_Received = fst (e_now E (snd (e_alloc E (s_world s))))\<rparr>" "RouteTimeout r"] assms(2,3)
  by (simp add: submit_def Let_def case_prod_beta)

lemma handleData_keeps:
  assumes "I (s_world s)" "session_inv E s" "env_ok E (s_cfg s)" "MaxMessageBytes (c_Limits (s_cfg s)) < 2 ^ 62"
  shows "I (s_world (snd (handleData E arg s)))"
proof -
  let ?s = "reply E 354 ''Send data, end with a single dot'' s"
  obtain x s1 where rb: "readBody E (MaxMessageBytes (c_Limits (s_cfg s))) body_init ?s = (x, s1)" by fastforce
  have s1: "I (s_world s1)" using readBody_keeps [OF _ rb] assms(1) by (simp add: now_keeps)
  have "int (length body) < 2 ^ 62" if "x = Inr (body, oversize)" for body oversize
    using committed_body [of E ?s body oversize s1] that rb assms(2,3,4) by simp
  with s1 submit_world [OF s1] rb assms(1) show ?thesis
    by (auto simp: handleData_def finish_def now_keeps split: sum.split option.split prod.split)
      (metis now_keeps option.discI snd_conv)
qed

lemma dispatch_verb_keeps:
  assumes "I (s_world s)" "session_inv E s" "env_ok E (s_cfg s)" "MaxMessageBytes (c_Limits (s_cfg s)) < 2 ^ 62"
  shows "I (s_world (snd (dispatch_verb E verb arg s)))"
proof (rule dispatch_verb_rule)
  show "I (s_world (snd (handleSTARTTLS E arg s)))"
    using assms(1) handshake_keeps [OF now_keeps [OF now_keeps [OF assms(1)]], of "rin (s_r s)"]
    by (auto simp: handleSTARTTLS_def Let_def now_keeps split: prod.split option.split)
  have "I (snd (Decide (e_lib E) (e_resolver E) (s_cfg s) (peerIP s) path (s_world s)))" for path
    using Decide_keeps assms(1) by blast
  then have "I (s_world (handleMail E arg s))"
    using assms(1) by (simp add: handleMail_def Let_def now_keeps case_prod_beta split: option.split Outcome.split)
  then show "I (s_world (snd (if \<not> inTx (handleMail E arg s) \<and> s_from (handleMail E arg s) = '''' then Stop else Continue,
      handleMail E arg s)))" by simp
  show "I (s_world (snd (handleRcpt E arg s)))"
    using assms(1) by (simp add: handleRcpt_def now_keeps split: option.split)
  show "I (s_world (snd (handleData E arg s)))" by (rule handleData_keeps [OF assms])
qed (use assms(1) in \<open>simp_all add: handleEHLO_def handleHELO_def Let_def now_keeps\<close>)

lemma turn_keeps:
  assumes "I (s_world s)" "session_inv E s" "env_ok E (s_cfg s)" "MaxMessageBytes (c_Limits (s_cfg s)) < 2 ^ 62"
  shows "I (s_world (snd (turn E s)))"
proof -
  obtain x s2 where r: "readCommand E s = (x, s2)" by fastforce
  then have s2: "session_inv E s2" "s_cfg s2 = s_cfg s" "I (s_world s2)"
    using readCommand_frame [OF r] readCommand_keeps [OF assms(1)] assms(2) by (auto simp: read_inv)
  with dispatch_verb_keeps [OF s2(3,1)] assms(3,4) r show ?thesis
    by (cases x) (simp_all add: turn_def now_keeps split: prod.split)
qed

lemma loop_keeps:
  assumes "I (s_world s)" "session_inv E s" "env_ok E (s_cfg s)" "MaxMessageBytes (c_Limits (s_cfg s)) < 2 ^ 62"
  shows "I (s_world (snd (loop E s)))"
proof -
  have "F = E \<Longrightarrow> I (s_world s) \<Longrightarrow> session_inv E s \<Longrightarrow> env_ok E (s_cfg s) \<Longrightarrow>
      MaxMessageBytes (c_Limits (s_cfg s)) < 2 ^ 62 \<Longrightarrow> I (s_world (snd (loop F s)))" for F
  proof (induction F s rule: loop.induct)
    case (1 F s)
    obtain c s1 where t: "turn E s = (c, s1)" by fastforce
    have i: "session_inv E s1" "s_cfg s1 = s_cfg s" "I (s_world s1)"
      using turn_inv [of E s] turn_keeps [of s] "1.prems" t by simp_all
    show ?case
    proof (cases c)
      case Continue
      with "1.IH" [of c s1] i "1.prems" t show ?thesis by (simp add: loop.simps [of E s])
    qed (use t i "1.prems" in \<open>simp_all add: loop.simps [of E s]\<close>)
  qed
  with assms show ?thesis by blast
qed

lemma handleConn_keeps:
  assumes "I w" "env_ok E cfg" "MaxMessageBytes (c_Limits cfg) < 2 ^ 62" "short stream"
  shows "I (s_world (snd (handleConn E cfg mode remote stream w)))"
proof -
  have "s_world (new_session E cfg mode remote stream w) = snd (e_now E w)"
    by (simp add: new_session_def Let_def split: prod.split)
  with assms show ?thesis
    unfolding handleConn_def by (intro loop_keeps) (simp_all add: now_keeps new_session_inv)
qed

end

section \<open>A conforming client\<close>

text \<open>The deadlines of a session do not pass while it runs.\<close>

definition on_time :: "'w env \<Rightarrow> 'w session \<Rightarrow> bool" where
  "on_time E s \<longleftrightarrow> (\<forall>w. fst (setReadDeadline E (s\<lparr>s_world := w\<rparr>)) = None)"

lemma on_time_cong:
  assumes "on_time E s" "s_cfg t = s_cfg s" "s_deadline t = s_deadline s"
  shows "on_time E t"
proof -
  have "fst (setReadDeadline E (t\<lparr>s_world := w\<rparr>)) = fst (setReadDeadline E (s\<lparr>s_world := w\<rparr>))" for w
    using assms(2,3) by (simp add: setReadDeadline_def Let_def split: prod.split)
  with assms(1) show ?thesis by (simp add: on_time_def)
qed

lemma on_time_deadline:
  assumes "on_time E s" obtains w where "setReadDeadline E s = (None, s\<lparr>s_world := w\<rparr>)"
proof -
  obtain e s1 where d: "setReadDeadline E s = (e, s1)" by fastforce
  have "fst (setReadDeadline E (s\<lparr>s_world := s_world s\<rparr>)) = None" using assms unfolding on_time_def by blast
  with d have "e = None" by simp
  with d setReadDeadline_frame [OF d] that show ?thesis by blast
qed

lemma turn_line:
  assumes "on_time E s" "rin (s_r s) = line @ CRLF @ rest" "LF \<notin> set line" "length line \<le> 510"
    "splitCommand (e_lib E) line = (verb, arg)"
  obtains w where "turn E s = dispatch_verb E verb arg (s\<lparr>s_r := (s_r s)\<lparr>rin := rest\<rparr>, s_world := w\<rparr>)"
proof -
  obtain w where d: "setReadDeadline E s = (None, s\<lparr>s_world := w\<rparr>)" by (rule on_time_deadline [OF assms(1)])
  have "ReadString (rin (s_r s)) = (line @ CRLF, True, rest)"
    using ReadString_line [of "line @ [CR]" rest] assms(2,3) by simp
  then have "readLine maxCommandLine (s_r s) = (Inr (line @ CRLF), (s_r s)\<lparr>rin := rest\<rparr>)"
    using assms(4) by (simp add: readLine_def maxCommandLine_def)
  moreover have "HasSuffix (line @ CRLF) CRLF" "TrimSuffix (line @ CRLF) CRLF = line"
    using HasSuffix_append [of line CRLF] TrimSuffix_append [of line CRLF] by simp_all
  ultimately have "readCommand E s = (Inr line, s\<lparr>s_r := (s_r s)\<lparr>rin := rest\<rparr>, s_world := w\<rparr>)"
    using d by (simp add: readCommand_def)
  with assms(5) that show ?thesis by (simp add: turn_def)
qed

lemma readBody_on_time:
  "on_time E s \<Longrightarrow> body_loop lim b (s_r s) = (x, r) \<Longrightarrow> \<exists>w. readBody E lim b s = (x, s\<lparr>s_r := r, s_world := w\<rparr>)"
proof (induction "size (s_r s)" arbitrary: b s rule: less_induct)
  case less
  obtain w where d: "setReadDeadline E s = (None, s\<lparr>s_world := w\<rparr>)" by (rule on_time_deadline [OF less.prems(1)])
  obtain y b2 r2 where t: "body_turn lim b (s_r s) = (y, b2, r2)" by (metis prod_cases3)
  show ?case
  proof (cases y)
    case None
    let ?s = "s\<lparr>s_world := w, s_r := r2\<rparr>"
    have "size (s_r ?s) < size (s_r s)" using body_turn_shorter t None by simp
    moreover have "on_time E ?s" by (rule on_time_cong [OF less.prems(1)]) simp_all
    moreover have "body_loop lim b2 (s_r ?s) = (x, r)"
      using less.prems(2) t None by (simp add: body_loop.simps [of lim b])
    ultimately obtain w2 where "readBody E lim b2 ?s = (x, ?s\<lparr>s_r := r, s_world := w2\<rparr>)"
      using less.hyps by blast
    moreover have "readBody E lim b s = readBody E lim b2 ?s"
      using d t None by (simp add: readBody.simps [of E lim b s])
    ultimately show ?thesis by auto
  next
    case (Some z)
    with less.prems(2) d t have "readBody E lim b s = (x, s\<lparr>s_r := r, s_world := w\<rparr>)"
      by (simp add: readBody.simps [of E lim b s] body_loop.simps [of lim b])
    then show ?thesis by blast
  qed
qed

text \<open>Command lines of the form a client writes.\<close>

lemma splitCommand_plain:
  assumes "verb \<noteq> []" "isASCII verb" "map upper_char verb = verb" "set verb \<inter> {SP, TAB} = {}"
  shows "splitCommand G verb = (verb, '''')"
    and "arg = [] \<or> graphic (hd arg) \<and> graphic (last arg) \<Longrightarrow> splitCommand G (verb @ SP # arg) = (verb, arg)"
proof -
  have n: "IndexAny verb [SP, TAB] = None" "IndexAny (verb @ SP # arg) [SP, TAB] = Some (length verb)"
    using assms(4) IndexAny_append [of verb "[SP, TAB]" SP arg] by (auto simp: IndexAny_None)
  have "hd verb \<noteq> SP" using assms(1,4) by (cases verb) auto
  then have "TrimLeft verb '' '' = verb" "TrimLeft (verb @ SP # arg) '' '' = verb @ SP # arg"
    using assms(1) by (cases verb; simp add: TrimLeft_def)+
  with n show "splitCommand G verb = (verb, '''')"
    "arg = [] \<or> graphic (hd arg) \<and> graphic (last arg) \<Longrightarrow> splitCommand G (verb @ SP # arg) = (verb, arg)"
    using assms(2,3) TrimSpace_id [of arg] by (simp_all add: splitCommand_def ToUpper_def Let_def)
qed

definition plain :: "string \<Rightarrow> bool" where
  "plain x \<longleftrightarrow> x \<noteq> [] \<and> graphic (hd x) \<and> graphic (last x) \<and> LF \<notin> set x \<and> CHR ''>'' \<notin> set x \<and> length x \<le> 400"

text \<open>What a turn of the conforming session changes and what it leaves.\<close>

definition carries :: "'w env \<Rightarrow> 'w session \<Rightarrow> string \<Rightarrow> string \<Rightarrow> 'w session \<Rightarrow> bool" where
  "carries E s said rest t \<longleftrightarrow>
     on_time E t \<and> rin (s_r t) = rest \<and> s_cfg t = s_cfg s \<and> peerIP t = peerIP s \<and> encrypted t = encrypted s \<and>
     s_out t = s_out s @ [(encrypted s, said)]"

lemma command_line:
  assumes "on_time E s" "rin (s_r s) = (verb @ SP # arg) @ CRLF @ rest" "LF \<notin> set verb" "LF \<notin> set arg"
    "length verb + length arg \<le> 509" "verb \<noteq> []" "isASCII verb" "map upper_char verb = verb" "set verb \<inter> {SP, TAB} = {}"
    "graphic (hd arg) \<and> graphic (last arg)"
  obtains w where "turn E s = dispatch_verb E verb arg (s\<lparr>s_r := (s_r s)\<lparr>rin := rest\<rparr>, s_world := w\<rparr>)"
proof (rule turn_line [OF assms(1,2)])
  show "splitCommand (e_lib E) (verb @ SP # arg) = (verb, arg)"
    using splitCommand_plain(2) [of verb arg] assms by blast
qed (use assms that in auto)

lemma turn_EHLO:
  assumes "on_time E s" "rin (s_r s) = ''EHLO '' @ name @ CRLF @ rest" "plain name"
  obtains t h where "turn E s = (Continue, t)" "carries E s h rest t" "helo t \<noteq> ''''" "\<not> inTx t" "s_rcpt t = ''''"
    "s_sent t = s_sent s"
proof -
  have u: "isASCII ''EHLO''" "map upper_char ''EHLO'' = ''EHLO''" by code_simp+
  obtain w where t: "turn E s = dispatch_verb E ''EHLO'' name (s\<lparr>s_r := (s_r s)\<lparr>rin := rest\<rparr>, s_world := w\<rparr>)"
    by (rule command_line [of E s "''EHLO''" name rest]) (use assms u in \<open>auto simp: plain_def\<close>)
  show ?thesis
    by (rule that [of "handleEHLO E name (s\<lparr>s_r := (s_r s)\<lparr>rin := rest\<rparr>, s_world := w\<rparr>)"])
      (use assms(1,3) in \<open>simp_all add: t dispatch_verb_def handleEHLO_def Let_def carries_def plain_def on_time_cong\<close>)
qed

lemma turn_MAIL:
  assumes "on_time E s" "rin (s_r s) = ''MAIL FROM:<'' @ a @ ''>'' @ CRLF @ rest" "plain a"
    and "helo s \<noteq> ''''" "\<not> inTx s" "s_rcpt s = ''''"
    and "\<And>w. d_Outcome (fst (Decide (e_lib E) (e_resolver E) (s_cfg s) (peerIP s) (ToLower (e_lib E) a) w)) = Admit"
  obtains t where "turn E s = (Continue, t)" "carries E s (reply_wire 250 ''OK'') rest t" "inTx t"
    "s_from t = ToLower (e_lib E) a" "s_rcpt t = ''''" "s_sent t = s_sent s"
proof -
  let ?arg = "''FROM:'' @ ''<'' @ a @ ''>'' @ ''''"
  have u: "isASCII ''MAIL''" "map upper_char ''MAIL'' = ''MAIL''" by code_simp+
  have g: "graphic (CHR ''F'')" "graphic (CHR ''>'')" by (simp_all add: graphic_def octet_def)
  obtain w where t: "turn E s = dispatch_verb E ''MAIL'' ?arg (s\<lparr>s_r := (s_r s)\<lparr>rin := rest\<rparr>, s_world := w\<rparr>)"
    by (rule command_line [of E s "''MAIL''" ?arg rest]) (use assms u g in \<open>auto simp: plain_def\<close>)
  have "parsePath (e_lib E) ?arg ''FROM:'' = Some (ToLower (e_lib E) a)"
    by (rule parsePath_bracketed) (use assms(3) in \<open>simp_all add: plain_def\<close>)
  moreover obtain d w2 where "Decide (e_lib E) (e_resolver E) (s_cfg s) (peerIP s) (ToLower (e_lib E) a) w = (d, w2)"
    "d_Outcome d = Admit" using assms(7) by (metis prod.collapse)
  ultimately show ?thesis
    by (intro that [of "handleMail E ?arg (s\<lparr>s_r := (s_r s)\<lparr>rin := rest\<rparr>, s_world := w\<rparr>)"])
      (use assms in \<open>simp_all add: t dispatch_verb_def handleMail_def Let_def carries_def on_time_cong\<close>)
qed

lemma turn_RCPT:
  assumes "on_time E s" "rin (s_r s) = ''RCPT TO:<'' @ b @ ''>'' @ CRLF @ rest" "plain b" "inTx s" "s_rcpt s = ''''"
    and "LookupRoute (e_lib E) (s_cfg s) (ToLower (e_lib E) b) = Some r"
  obtains t where "turn E s = (Continue, t)" "carries E s (reply_wire 250 ''OK'') rest t" "inTx t"
    "s_from t = s_from s" "s_rcpt t = ToLower (e_lib E) b" "s_route t = Some r" "s_sent t = s_sent s"
proof -
  let ?arg = "''TO:'' @ ''<'' @ b @ ''>'' @ ''''"
  have u: "isASCII ''RCPT''" "map upper_char ''RCPT'' = ''RCPT''" by code_simp+
  have g: "graphic (CHR ''T'')" "graphic (CHR ''>'')" by (simp_all add: graphic_def octet_def)
  obtain w where t: "turn E s = dispatch_verb E ''RCPT'' ?arg (s\<lparr>s_r := (s_r s)\<lparr>rin := rest\<rparr>, s_world := w\<rparr>)"
    by (rule command_line [of E s "''RCPT''" ?arg rest]) (use assms u g in \<open>auto simp: plain_def\<close>)
  have "parsePath (e_lib E) ?arg ''TO:'' = Some (ToLower (e_lib E) b)"
    by (rule parsePath_bracketed) (use assms(3) in \<open>simp_all add: plain_def\<close>)
  then show ?thesis
    by (intro that [of "snd (handleRcpt E ?arg (s\<lparr>s_r := (s_r s)\<lparr>rin := rest\<rparr>, s_world := w\<rparr>))"])
      (use assms in \<open>simp_all add: t dispatch_verb_def handleRcpt_def carries_def on_time_cong\<close>)
qed

lemma verb_line:
  assumes "on_time E s" "rin (s_r s) = verb @ CRLF @ rest" "LF \<notin> set verb" "length verb \<le> 510"
    "verb \<noteq> []" "isASCII verb" "map upper_char verb = verb" "set verb \<inter> {SP, TAB} = {}"
  obtains w where "turn E s = dispatch_verb E verb '''' (s\<lparr>s_r := (s_r s)\<lparr>rin := rest\<rparr>, s_world := w\<rparr>)"
  by (rule turn_line [OF assms(1-4) splitCommand_plain(1) [OF assms(5-8)]]) (rule that)

lemma turn_DATA:
  assumes "on_time E s" "rin (s_r s) = ''DATA'' @ CRLF @ stream_of ls @ ''.'' @ CRLF @ rest"
    "inTx s" "s_rcpt s \<noteq> ''''" "s_route s = Some r"
    and ls: "list_all data_line ls" "stored_size ls \<le> MaxMessageBytes (c_Limits (s_cfg s))" "stored_size ls < 2 ^ 63"
  obtains t m where "turn E s = (Continue, t)" "on_time E t" "rin (s_r t) = rest"
    "encrypted t = encrypted s" "s_cfg t = s_cfg s"
    "s_out t = s_out s @ map (Pair (encrypted s))
       [reply_wire 354 ''Send data, end with a single dot'', reply_wire 250 ''OK'']"
    "s_sent t = s_sent s @ [m]" "m_From m = s_from s" "m_To m = s_rcpt s" "m_Route m = Some r"
    "m_Body m = text_of (map stored ls)" "m_PeerIP m = peerIP s"
proof -
  have u: "isASCII ''DATA''" "map upper_char ''DATA'' = ''DATA''" by code_simp+
  let ?rest = "stream_of ls @ (''.'' @ [CR]) @ LF # rest"
  obtain w where t: "turn E s = dispatch_verb E ''DATA'' '''' (s\<lparr>s_r := (s_r s)\<lparr>rin := ?rest\<rparr>, s_world := w\<rparr>)"
    by (rule verb_line [of E s "''DATA''" ?rest]) (use assms(1,2) u in auto)
  define s0 where "s0 = s\<lparr>s_r := (s_r s)\<lparr>rin := ?rest\<rparr>, s_world := w\<rparr>"
  let ?s = "reply E 354 ''Send data, end with a single dot'' s0" and ?lim = "MaxMessageBytes (c_Limits (s_cfg s))"
  have "chomp (''.'' @ [CR]) = ''.''" by code_simp
  moreover have "0 \<le> ?lim" using ls(2) stored_size_nonneg [of ls] by linarith
  ultimately have "body_loop ?lim body_init (s_r ?s) = (Inr (text_of (map stored ls), False), (s_r s)\<lparr>rin := rest\<rparr>)"
    using body_loop_exact [OF ls(1), of "''.'' @ [CR]" ?lim rest "s_r s"] ls(2,3) by (simp add: s0_def)
  moreover have "on_time E ?s" by (rule on_time_cong [OF assms(1)]) (simp_all add: s0_def)
  ultimately obtain w1 where rb: "readBody E ?lim body_init ?s =
      (Inr (text_of (map stored ls), False), ?s\<lparr>s_r := (s_r s)\<lparr>rin := rest\<rparr>, s_world := w1\<rparr>)"
    using readBody_on_time by blast
  define s1 where "s1 = ?s\<lparr>s_r := (s_r s)\<lparr>rin := rest\<rparr>, s_world := w1\<rparr>"
  obtain res derr s2 where sub: "submit E r (text_of (map stored ls)) s1 = ((res, derr), s2)" by (metis prod.collapse)
  obtain m w2 where s2: "s2 = s1\<lparr>s_sent := s_sent s1 @ [m], s_world := w2\<rparr>" and
    m: "m_From m = s_from s" "m_To m = s_rcpt s" "m_Route m = Some r" "m_Body m = text_of (map stored ls)"
      "m_PeerIP m = peerIP s"
    using submit_frame [OF sub] assms(5) by (auto simp: s1_def s0_def)
  define t where "t = finish E (log (result_event res (s_from s2) (s_rcpt s2) (r_Recipient r)
      (length (text_of (map stored ls))) derr) s2)"
  have "handleData E '''' s0 = (Continue, t)"
    using handleData_committed [of s0 "''''" E "text_of (map stored ls)" False s1 r] rb assms(3-5) sub
    by (simp add: s0_def s1_def t_def)
  then have c: "turn E s = (Continue, t)"
    unfolding \<open>turn E s = _\<close> s0_def [symmetric] by (simp add: dispatch_verb_def)
  have o: "on_time E t" by (rule on_time_cong [OF assms(1)]) (simp_all add: t_def s2 s1_def s0_def finish_def)
  show ?thesis
    by (rule that [of t m]) (rule c, rule o, simp_all add: m t_def s2 s1_def s0_def finish_def)
qed

lemma loop_QUIT:
  assumes "on_time E s" "rin (s_r s) = ''QUIT'' @ CRLF @ rest"
  obtains t where "loop E s = (Stop, t)" "s_sent t = s_sent s"
    "s_out t = s_out s @ [(encrypted s, reply_wire 221 (Hostname (s_cfg s) @ '' closing connection''))]"
proof -
  have u: "isASCII ''QUIT''" "map upper_char ''QUIT'' = ''QUIT''" by code_simp+
  obtain w where t: "turn E s = dispatch_verb E ''QUIT'' '''' (s\<lparr>s_r := (s_r s)\<lparr>rin := rest\<rparr>, s_world := w\<rparr>)"
    by (rule verb_line [of E s "''QUIT''" rest]) (use assms u in auto)
  let ?t = "reply E 221 (Hostname (s_cfg s) @ '' closing connection'') (s\<lparr>s_r := (s_r s)\<lparr>rin := rest\<rparr>, s_world := w\<rparr>)"
  have "loop E s = (Stop, ?t)" by (simp add: loop.simps [of E s] t dispatch_verb_def)
  then show ?thesis by (rule that) simp_all
qed

lemma loop_Continue: "turn E s = (Continue, t) \<Longrightarrow> loop E s = loop E t"
  by (simp add: loop.simps [of E s])

section \<open>Properties\<close>


definition sample_env :: "unit env" where
  "sample_env =
     \<lparr>e_lib = sample_lib, e_now = (\<lambda>w. (0, w)), e_alloc = (\<lambda>w. (1, w)),
      e_resolver = \<lparr>LookupAddr = (\<lambda>_ w. (None, w)), LookupIPAddr = (\<lambda>_ w. (None, w)), CheckSPF = (\<lambda>_ _ _ w. (SPFNone, w))\<rparr>,
      e_dispatch = StubDispatch, e_tlsConf = True,
      e_handshake = (\<lambda>_ w. (Some \<lparr>rin = ''QUIT'' @ CRLF, rend_EOF = True\<rparr>, w)),
      e_SetReadDeadline = (\<lambda>_ w. (True, w))\<rparr>"

definition sample_lines :: "string list" where
  "sample_lines = [''Subject: hi'' @ [CR], [CR], ''..x'']"

definition sample_input :: string where
  "sample_input = ''EHLO '' @ ''mx.vendor.com'' @ CRLF @ ''MAIL FROM:<'' @ ''Ann@vendor.com'' @ ''>'' @ CRLF @
     ''RCPT TO:<'' @ ''hook@filter.example.com'' @ ''>'' @ CRLF @
     ''DATA'' @ CRLF @ stream_of sample_lines @ ''.'' @ CRLF @ ''QUIT'' @ CRLF @ ''''"

definition sample_session :: "unit session" where
  "sample_session =
     \<lparr>s_cfg = sample_config, s_mode = TLSStartTLS, encrypted = False, peerIP = v4InV6Prefix @ [10, 1, 2, 3],
      s_deadline = 300000000000, helo = '''', s_from = '''', s_rcpt = '''', s_route = None, inTx = False,
      s_r = \<lparr>rin = sample_input, rend_EOF = True\<rparr>, s_wdeadline = 0, s_out = [], s_log = [], s_sent = [], s_world = ()\<rparr>"

lemma sample_on_time: "on_time sample_env sample_session"
proof -
  have "fst (setReadDeadline sample_env sample_session) = None" by code_simp
  then show ?thesis by (simp add: on_time_def sample_session_def)
qed

lemma sample_route_found:
  "LookupRoute sample_lib sample_config ''hook@filter.example.com'' = Some (Routes sample_config ! 0)"
  by code_simp


text \<open>C1: Every message a session hands to the dispatcher has passed both gates: its sender is authorised
  for the peer by the admission rules, its recipient has the route the message carries, its body is
  within the size limit and is made of lines ended by CR LF, and (if lower-casing creates no control
  characters) its envelope holds no line feed. The session always ends, and never by a panic.\<close>

theorem session_dispatches_only_gated:
  assumes "handleConn E cfg mode remote stream w = (c, s)" "env_ok E cfg" "short stream"
  shows "c = Stop \<and> list_all (gated E cfg (peerIP s)) (s_sent s)"
  using assms by (rule handleConn_gated)

definition sample_stream :: reader where
  "sample_stream = \<lparr>rin = sample_input, rend_EOF = True\<rparr>"

lemma sample_env_ok: "env_ok sample_env sample_config"
proof -
  have "MaxMessageBytes (c_Limits sample_config) = 10485760" by code_simp
  then show ?thesis by (auto simp: env_ok_def sample_env_def short_def)
qed

theorem session_dispatches_only_gated_witness:
  "length (s_sent (snd (handleConn sample_env sample_config TLSStartTLS ''10.1.2.3:40000'' sample_stream ()))) = 1 \<and>
   list_all (gated sample_env sample_config
       (peerIP (snd (handleConn sample_env sample_config TLSStartTLS ''10.1.2.3:40000'' sample_stream ()))))
     (s_sent (snd (handleConn sample_env sample_config TLSStartTLS ''10.1.2.3:40000'' sample_stream ())))"
proof -
  let ?h = "handleConn sample_env sample_config TLSStartTLS ''10.1.2.3:40000'' sample_stream ()"
  have "length (s_sent (snd ?h)) = 1" by code_simp
  moreover have "short sample_stream"
    by (simp add: short_def sample_stream_def sample_input_def sample_lines_def)
  ultimately show ?thesis
    using session_dispatches_only_gated [of sample_env sample_config TLSStartTLS "''10.1.2.3:40000''" sample_stream "()" "fst ?h" "snd ?h"]
      sample_env_ok by simp
qed

text \<open>C6: Past the commit point the reply is always 250 and never discloses what became of the message:
  once the dot has been read, DATA writes 354 and 250, clears the transaction, writes one log entry,
  keeps the connection, and calls the dispatcher once, or not at all for an oversize body, whatever
  the dispatcher returns.\<close>

theorem data_commit_always_250:
  assumes "session_inv E s" "inTx s" "s_rcpt s \<noteq> ''''"
    "readBody E (MaxMessageBytes (c_Limits (s_cfg s))) body_init
       (reply E 354 ''Send data, end with a single dot'' s) = (Inr (body, oversize), s1)"
  shows "\<exists>t ms ev. handleData E '''' s = (Continue, t) \<and>
     s_out t = s_out s @ [(encrypted s, reply_wire 354 ''Send data, end with a single dot''), (encrypted s, reply_wire 250 ''OK'')] \<and>
     \<not> inTx t \<and> s_from t = '''' \<and> s_rcpt t = '''' \<and> s_route t = None \<and> s_log t = s_log s @ [ev] \<and>
     s_sent t = s_sent s @ ms \<and> length ms = (if oversize then 0 else 1) \<and>
     (\<forall>m \<in> set ms. m_From m = s_from s \<and> m_To m = s_rcpt s \<and> m_Route m = s_route s \<and> m_Body m = body)"
proof -
  obtain r w where s1: "s1 = (reply E 354 ''Send data, end with a single dot'' s)\<lparr>s_r := r, s_world := w\<rparr>"
    using readBody_frame [OF assms(4)] by blast
  obtain rt where rt: "s_route s1 = Some rt" using committed_route [OF assms(1-3)] s1 by auto
  obtain res derr s2 where sub: "submit E rt body s1 = ((res, derr), s2)" by (metis prod.collapse)
  from submit_frame [OF sub] obtain m w2 where s2: "s2 = s1\<lparr>s_sent := s_sent s1 @ [m], s_world := w2\<rparr>"
    and m: "m_From m = s_from s1" "m_To m = s_rcpt s1" "m_Route m = s_route s1" "m_Body m = body" by blast
  show ?thesis
  proof (cases oversize)
    case True
    then show ?thesis
      using handleData_committed [OF assms(2,3) refl assms(4) rt] s1 by (auto simp: finish_def)
  next
    case False
    then show ?thesis
      using handleData_committed [OF assms(2,3) refl assms(4) rt] s1 s2 m sub by (auto simp: finish_def)
  qed
qed

definition sample_data :: "unit session" where
  "sample_data = sample_session\<lparr>helo := ''mx'', s_from := ''ann@vendor.com'', inTx := True,
     s_rcpt := ''hook@filter.example.com'', s_route := Some (Routes sample_config ! 0),
     s_r := \<lparr>rin = ''Hi'' @ CRLF @ ''.'' @ CRLF, rend_EOF = True\<rparr>\<rparr>"

lemma sample_tx: "session_inv sample_env sample_data"
proof -
  let ?D = "Decide sample_lib (e_resolver sample_env) sample_config (v4InV6Prefix @ [10, 1, 2, 3]) ''ann@vendor.com'' ()"
  have "d_Outcome (fst ?D) = Admit" by code_simp
  then have "authorised sample_lib (e_resolver sample_env) sample_config (v4InV6Prefix @ [10, 1, 2, 3]) ''ann@vendor.com''"
    by (rule Decide_Admit [OF prod.collapse [symmetric]])
  moreover have "e_lib sample_env = sample_lib" by (simp add: sample_env_def)
  ultimately show ?thesis
    using sample_route_found by (simp add: session_inv_def tx_inv_def sample_data_def sample_session_def short_def)
qed

theorem data_commit_always_250_witness:
  "\<exists>t ms ev. handleData sample_env '''' sample_data = (Continue, t) \<and>
     s_out t = s_out sample_data @
       [(encrypted sample_data, reply_wire 354 ''Send data, end with a single dot''), (encrypted sample_data, reply_wire 250 ''OK'')] \<and>
     \<not> inTx t \<and> s_from t = '''' \<and> s_rcpt t = '''' \<and> s_route t = None \<and> s_log t = s_log sample_data @ [ev] \<and>
     s_sent t = s_sent sample_data @ ms \<and> length ms = (if False then 0 else 1) \<and>
     (\<forall>m \<in> set ms. m_From m = s_from sample_data \<and> m_To m = s_rcpt sample_data \<and> m_Route m = s_route sample_data \<and>
        m_Body m = ''Hi'' @ CRLF)"
proof (rule data_commit_always_250 [OF sample_tx])
  let ?b = "readBody sample_env (MaxMessageBytes (c_Limits (s_cfg sample_data))) body_init
      (reply sample_env 354 ''Send data, end with a single dot'' sample_data)"
  have "fst ?b = Inr (''Hi'' @ CRLF, False)" by code_simp
  then show "?b = (Inr (''Hi'' @ CRLF, False), snd ?b)" by (metis prod.collapse)
qed (simp_all add: sample_data_def)

text \<open>C16: STARTTLS: the connection becomes encrypted only from a clear one on a STARTTLS listener with a
  TLS configuration, by a handshake that succeeded. The session then has no greeting and no
  transaction, and reads from the stream of the handshake, so that commands the client sent ahead in
  the clear are never executed; the messages dispatched so far and the limits stay.\<close>

theorem starttls_resets_session:
  assumes "handleSTARTTLS E arg s = (c, t)" "encrypted t" "\<not> encrypted s"
  shows "c = Continue \<and> arg = '''' \<and> s_mode s = TLSStartTLS \<and> e_tlsConf E \<and> helo t = '''' \<and> \<not> inTx t \<and>
     s_from t = '''' \<and> s_rcpt t = '''' \<and> s_route t = None \<and>
     (\<exists>w w'. e_handshake E (rin (s_r s)) w = (Some (s_r t), w')) \<and>
     s_out t = s_out s @ [(False, reply_wire 220 ''Ready to start TLS'')] \<and>
     s_sent t = s_sent s \<and> s_cfg t = s_cfg s \<and> s_deadline t = s_deadline s"
  using assms by (auto simp: handleSTARTTLS_def Let_def split: if_splits prod.splits option.splits) blast

theorem starttls_resets_session_witness:
  "\<exists>t. handleSTARTTLS sample_env '''' (sample_session\<lparr>helo := ''mx''\<rparr>) = (Continue, t) \<and> encrypted t \<and> helo t = '''' \<and>
     \<not> inTx t \<and> rin (s_r t) = ''QUIT'' @ CRLF"
proof -
  let ?x = "handleSTARTTLS sample_env '''' (sample_session\<lparr>helo := ''mx''\<rparr>)"
  have "encrypted (snd ?x)" "\<not> encrypted (sample_session\<lparr>helo := ''mx''\<rparr>)" "rin (s_r (snd ?x)) = ''QUIT'' @ CRLF"
    by code_simp+
  with starttls_resets_session [of sample_env "''''" "sample_session\<lparr>helo := ''mx''\<rparr>" "fst ?x" "snd ?x"]
  show ?thesis by (intro exI [of _ "snd ?x"]) (simp add: prod_eq_iff)
qed

text \<open>C36: A MAIL command that opens no transaction ends the session, not only when the sender is
  refused: a MAIL before EHLO (503) or with a syntax error (501) closes the connection as well. One
  that finds or opens a transaction keeps it.\<close>

theorem mail_without_transaction_closes:
  assumes "session_inv E s" "LF \<notin> set arg"
  shows "fst (dispatch_verb E ''MAIL'' arg s) = (if inTx (snd (dispatch_verb E ''MAIL'' arg s)) then Continue else Stop) \<and>
     (helo s = '''' \<longrightarrow> fst (dispatch_verb E ''MAIL'' arg s) = Stop)"
proof -
  have "session_inv E (handleMail E arg s)" using handleMail_inv [OF assms] .
  moreover have "\<not> inTx s" if "helo s = ''''" using assms(1) that by (auto simp: session_inv_def tx_inv_def)
  ultimately show ?thesis
    by (auto simp: dispatch_verb_def Let_def session_inv_def tx_inv_def handleMail_def)
qed

theorem mail_without_transaction_closes_witness:
  "fst (dispatch_verb sample_env ''MAIL'' ''FROM:<a@b>'' (new_session sample_env sample_config TLSPlain '''' sample_stream ())) = Stop"
proof -
  have short: "short sample_stream" by (simp add: short_def sample_stream_def sample_input_def sample_lines_def)
  have helo: "helo (new_session sample_env sample_config TLSPlain '''' sample_stream ()) = ''''"
    by (simp add: new_session_def Let_def split: prod.split)
  have "LF \<notin> set ''FROM:<a@b>''" by simp
  from mail_without_transaction_closes [OF new_session_inv(1) [OF short] this, THEN conjunct2, rule_format, OF helo]
  show ?thesis .
qed

end
