(* ===== verification/Server.thy ===== *)
theory Server
  imports Session
begin

text \<open>
  The listeners and the accept loop, \<^verbatim>\<open>internal/server/server.go\<close>, as a step relation: the
  goroutine of \<^verbatim>\<open>ListenAndServe\<close> (binding, then waiting), one accept loop per listener, one
  goroutine per connection, and the calls of \<^verbatim>\<open>Reload\<close> and \<^verbatim>\<open>Close\<close> from the main
  goroutine, in any order. A step is a section that no other goroutine can split. The semaphore is a
  channel with a capacity and a number of tokens. What a session does is in its own theory; here it
  starts with the configuration it loads, and ends.
\<close>

section \<open>State\<close>

record Server =
  srv_cfg :: Config
  srv_tlsConf :: bool
  sem_cap :: int
  sem_len :: nat
  srv_listeners :: "nat list"
  srv_closing :: bool

definition server_New :: "Config \<Rightarrow> bool \<Rightarrow> Server" where
  "server_New cfg tlsConf =
     \<lparr>srv_cfg = cfg, srv_tlsConf = tlsConf, sem_cap = MaxConnections (c_Limits cfg), sem_len = 0,
      srv_listeners = [], srv_closing = False\<rparr>"

definition Reload :: "Config \<Rightarrow> Server \<Rightarrow> Server" where
  "Reload cfg s = s\<lparr>srv_cfg := cfg\<rparr>"

datatype accept_error = AcceptTimeout | AcceptFault
datatype bind_error = ListenFault | NoTLSConfig

text \<open>\<^verbatim>\<open>bind\<close>: \<open>listens\<close> says whether \<^verbatim>\<open>net.Listen\<close> succeeds. The result is
  the mode the listener runs in.\<close>

definition bind :: "bool \<Rightarrow> Listener \<Rightarrow> Server \<Rightarrow> bind_error + TLSMode" where
  "bind listens l s =
     (if \<not> listens then Inl ListenFault
      else if l_TLS l = TLSImplicit \<and> \<not> srv_tlsConf s then Inl NoTLSConfig
      else Inr (l_TLS l))"

datatype serving = Serving TLSMode | Served "accept_error option"

text \<open>A connection goroutine before and after it has loaded the configuration.\<close>

datatype sess = Accepted_conn TLSMode | Running TLSMode Config

datatype listening = Starting | Binding "Listener list" | Waiting | BindFailed bind_error
  | Returned "bind_error option" "accept_error list"

record srvsys =
  y_srv :: Server
  y_main :: listening
  y_open :: "nat set"
  y_loops :: "nat \<Rightarrow> serving option"
  y_next :: nat
  y_sess :: "sess list"
  y_refused :: nat

text \<open>\<^verbatim>\<open>Close\<close>.\<close>

definition Close :: "srvsys \<Rightarrow> srvsys" where
  "Close y = y\<lparr>y_srv := (y_srv y)\<lparr>srv_closing := True, srv_listeners := []\<rparr>,
     y_open := y_open y - set (srv_listeners (y_srv y))\<rparr>"

text \<open>A successful turn of the accept loop: a token of the semaphore and a goroutine, or a connection
  closed without a reply.\<close>

definition accepted :: "TLSMode \<Rightarrow> srvsys \<Rightarrow> srvsys" where
  "accepted mode y =
     (if int (sem_len (y_srv y)) < sem_cap (y_srv y)
      then y\<lparr>y_srv := (y_srv y)\<lparr>sem_len := Suc (sem_len (y_srv y))\<rparr>, y_sess := y_sess y @ [Accepted_conn mode]\<rparr>
      else y\<lparr>y_refused := Suc (y_refused y)\<rparr>)"

text \<open>A failed accept: the loop ends quietly when the server is closing, goes on after a time-out, and
  ends with the error otherwise.\<close>

definition accept_failed :: "nat \<Rightarrow> TLSMode \<Rightarrow> accept_error \<Rightarrow> srvsys \<Rightarrow> srvsys" where
  "accept_failed ln mode e y =
     y\<lparr>y_loops := (y_loops y)(ln \<mapsto>
         (if srv_closing (y_srv y) then Served None
          else case e of AcceptTimeout \<Rightarrow> Serving mode | AcceptFault \<Rightarrow> Served (Some AcceptFault)))\<rparr>"

definition loops_done :: "srvsys \<Rightarrow> bool" where
  "loops_done y \<longleftrightarrow> (\<forall>ln < y_next y. case y_loops y ln of Some (Serving _) \<Rightarrow> False | _ \<Rightarrow> True)"

definition loop_errors :: "srvsys \<Rightarrow> accept_error list" where
  "loop_errors y = List.map_filter (\<lambda>ln. case y_loops y ln of Some (Served e) \<Rightarrow> e | _ \<Rightarrow> None) [0..<y_next y]"

inductive srv_step :: "srvsys \<Rightarrow> srvsys \<Rightarrow> bool" where
  step_start:
    "y_main y = Starting \<Longrightarrow> srv_step y (y\<lparr>y_main := Binding (Listeners (srv_cfg (y_srv y)))\<rparr>)"
| step_bind:
    "y_main y = Binding (l # ls) \<Longrightarrow> bind listens l (y_srv y) = Inr mode \<Longrightarrow>
     srv_step y (y\<lparr>y_main := Binding ls, y_open := insert (y_next y) (y_open y),
       y_srv := (y_srv y)\<lparr>srv_listeners := srv_listeners (y_srv y) @ [y_next y]\<rparr>,
       y_loops := (y_loops y)(y_next y \<mapsto> Serving mode), y_next := Suc (y_next y)\<rparr>)"
| step_bind_failed:
    "y_main y = Binding (l # ls) \<Longrightarrow> bind listens l (y_srv y) = Inl e \<Longrightarrow>
     srv_step y (Close (y\<lparr>y_main := BindFailed e\<rparr>))"
| step_bound: "y_main y = Binding [] \<Longrightarrow> srv_step y (y\<lparr>y_main := Waiting\<rparr>)"
| step_return:
    "y_main y = Waiting \<Longrightarrow> loops_done y \<Longrightarrow> srv_step y (y\<lparr>y_main := Returned None (loop_errors y)\<rparr>)"
| step_return_failed:
    "y_main y = BindFailed e \<Longrightarrow> loops_done y \<Longrightarrow> srv_step y (y\<lparr>y_main := Returned (Some e) []\<rparr>)"
| step_accept:
    "y_loops y ln = Some (Serving mode) \<Longrightarrow> ln \<in> y_open y \<Longrightarrow> srv_step y (accepted mode y)"
| step_accept_failed:
    "y_loops y ln = Some (Serving mode) \<Longrightarrow> srv_step y (accept_failed ln mode e y)"
| step_load:
    "i < length (y_sess y) \<Longrightarrow> y_sess y ! i = Accepted_conn mode \<Longrightarrow>
     srv_step y (y\<lparr>y_sess := (y_sess y)[i := Running mode (srv_cfg (y_srv y))]\<rparr>)"
| step_end:
    "i < length (y_sess y) \<Longrightarrow> y_sess y ! i = Running mode cfg \<Longrightarrow>
     srv_step y (y\<lparr>y_srv := (y_srv y)\<lparr>sem_len := sem_len (y_srv y) - 1\<rparr>,
       y_sess := take i (y_sess y) @ drop (Suc i) (y_sess y)\<rparr>)"
| step_reload: "srv_step y (y\<lparr>y_srv := Reload cfg (y_srv y)\<rparr>)"
| step_close: "srv_step y (Close y)"

definition srv_init :: "Config \<Rightarrow> bool \<Rightarrow> srvsys" where
  "srv_init cfg tlsConf =
     \<lparr>y_srv = server_New cfg tlsConf, y_main = Starting, y_open = {}, y_loops = Map.empty, y_next = 0,
      y_sess = [], y_refused = 0\<rparr>"

section \<open>The invariant\<close>

definition srv_inv :: "Config \<Rightarrow> bool \<Rightarrow> srvsys \<Rightarrow> bool" where
  "srv_inv cfg0 tlsConf y \<longleftrightarrow>
     sem_cap (y_srv y) = MaxConnections (c_Limits cfg0) \<and> srv_tlsConf (y_srv y) = tlsConf \<and>
     length (y_sess y) = sem_len (y_srv y) \<and> (0 \<le> sem_cap (y_srv y) \<longrightarrow> int (sem_len (y_srv y)) \<le> sem_cap (y_srv y)) \<and>
     y_open y = set (srv_listeners (y_srv y)) \<and> (\<forall>ln \<in> y_open y. ln < y_next y) \<and> distinct (srv_listeners (y_srv y)) \<and>
     (\<not> tlsConf \<longrightarrow> (\<forall>ln. y_loops y ln \<noteq> Some (Serving TLSImplicit)) \<and>
        (\<forall>x \<in> set (y_sess y). x \<noteq> Accepted_conn TLSImplicit \<and> (\<forall>c. x \<noteq> Running TLSImplicit c)))"

lemma srv_init_inv: "srv_inv cfg0 tlsConf (srv_init cfg0 tlsConf)"
  by (simp add: srv_inv_def srv_init_def server_New_def)

lemma srv_step_inv:
  assumes "srv_step y z" "srv_inv cfg0 tlsConf y"
  shows "srv_inv cfg0 tlsConf z"
  using assms
proof (cases rule: srv_step.cases)
  case (step_bind l ls listens mode)
  then have "\<not> tlsConf \<longrightarrow> mode \<noteq> TLSImplicit"
    using assms(2) by (auto simp: bind_def srv_inv_def split: if_splits)
  with step_bind(1) assms(2) show ?thesis by (auto simp: srv_inv_def less_Suc_eq)
next
  case (step_accept ln mode)
  with assms(2) show ?thesis by (auto simp: srv_inv_def accepted_def)
next
  case (step_accept_failed ln mode e)
  with assms(2) show ?thesis by (auto simp: srv_inv_def accept_failed_def split: accept_error.splits)
next
  case (step_load i mode)
  with assms(2) show ?thesis
    by (auto simp: srv_inv_def dest!: set_update_subset_insert [THEN subsetD])
next
  case (step_end i mode cfg)
  have "set (take i (y_sess y) @ drop (Suc i) (y_sess y)) \<subseteq> set (y_sess y)"
    by (auto dest: in_set_takeD in_set_dropD)
  with step_end assms(2) show ?thesis by (auto simp: srv_inv_def)
qed (auto simp: srv_inv_def Close_def Reload_def)

inductive_cases srv_stepE: "srv_step y z"

interpretation accept_loop: invariant_system "srv_init cfg0 tlsConf" srv_step "srv_inv cfg0 tlsConf"
  by unfold_locales (auto intro: srv_init_inv srv_step_inv)

section \<open>After Close\<close>

text \<open>All listeners were bound and are closed again: nothing is accepted any more.\<close>

definition closed :: "srvsys \<Rightarrow> bool" where
  "closed y \<longleftrightarrow> srv_closing (y_srv y) \<and> y_open y = {} \<and> srv_listeners (y_srv y) = [] \<and>
     (y_main y = Waiting \<or> (\<exists>b es. y_main y = Returned b es))"

lemma closed_step: "srv_step y z \<Longrightarrow> closed y \<Longrightarrow> closed z \<and> length (y_sess z) \<le> length (y_sess y)"
  by (erule srv_step.cases) (auto simp: closed_def accept_failed_def Close_def Reload_def)

lemma closed_steps: "srv_step\<^sup>*\<^sup>* y z \<Longrightarrow> closed y \<Longrightarrow> closed z \<and> length (y_sess z) \<le> length (y_sess y)"
  by (induction rule: rtranclp_induct) (auto dest: closed_step le_trans)

lemma Close_closed: "srv_inv cfg0 tlsConf y \<Longrightarrow> y_main y = Waiting \<Longrightarrow> closed (Close y)"
  by (simp add: closed_def Close_def srv_inv_def)

text \<open>The accept loops that still run, each of which ends at its next failed accept.\<close>

definition serving_loops :: "srvsys \<Rightarrow> nat set" where
  "serving_loops y = {ln. ln < y_next y \<and> (\<exists>mode. y_loops y ln = Some (Serving mode))}"

lemma loops_done_iff: "loops_done y \<longleftrightarrow> serving_loops y = {}"
  by (auto simp: loops_done_def serving_loops_def split: option.splits serving.splits)

lemma accept_failed_closing:
  assumes "srv_closing (y_srv y)" "y_loops y ln = Some (Serving mode)"
  shows "serving_loops (accept_failed ln mode e y) = serving_loops y - {ln}"
    "loop_errors (accept_failed ln mode e y) = loop_errors y"
  using assms unfolding loop_errors_def
  by (auto simp: serving_loops_def accept_failed_def List.map_filter_def comp_def split: if_splits
      intro!: arg_cong2 [where f = map] filter_cong)

lemma closed_returns:
  assumes "closed y" "y_main y = Waiting"
  shows "\<exists>t. srv_step\<^sup>*\<^sup>* y t \<and> y_main t = Returned None (loop_errors y) \<and> y_sess t = y_sess y"
  using assms
proof (induction "card (serving_loops y)" arbitrary: y rule: less_induct)
  case less
  show ?case
  proof (cases "loops_done y")
    case True
    with less.prems(2) have "srv_step y (y\<lparr>y_main := Returned None (loop_errors y)\<rparr>)" by (rule step_return)
    then show ?thesis by (intro exI conjI) (rule r_into_rtranclp, assumption, simp_all)
  next
    case False
    then obtain ln mode where l: "ln \<in> serving_loops y" "y_loops y ln = Some (Serving mode)"
      by (auto simp: loops_done_iff serving_loops_def)
    let ?z = "accept_failed ln mode AcceptFault y"
    have step: "srv_step y ?z" using l(2) by (rule step_accept_failed)
    have c: "srv_closing (y_srv y)" using less.prems(1) by (simp add: closed_def)
    note e = accept_failed_closing [OF c l(2), of AcceptFault]
    have "finite (serving_loops y)" by (simp add: serving_loops_def)
    with l(1) have "card (serving_loops ?z) < card (serving_loops y)" by (simp only: e(1) card_Diff1_less)
    moreover have "closed ?z" using closed_step [OF step less.prems(1)] by simp
    moreover have "y_main ?z = Waiting" using less.prems(2) by (simp add: accept_failed_def)
    ultimately obtain t where "srv_step\<^sup>*\<^sup>* ?z t" "y_main t = Returned None (loop_errors ?z)" "y_sess t = y_sess ?z"
      using less.hyps by blast
    moreover have "y_sess ?z = y_sess y" by (simp add: accept_failed_def)
    ultimately show ?thesis using step e(2) by (metis converse_rtranclp_into_rtranclp)
  qed
qed

lemma closed_ends:
  assumes "closed y"
  shows "\<exists>t b es. srv_step\<^sup>*\<^sup>* y t \<and> y_main t = Returned b es \<and> y_sess t = y_sess y"
  using assms closed_returns [OF assms] by (auto simp: closed_def)

section \<open>Properties\<close>

definition sample_bound :: srvsys where
  "sample_bound = (srv_init sample_config True)\<lparr>y_main := Binding (tl (Listeners sample_config)), y_open := {0},
       y_srv := (server_New sample_config True)\<lparr>srv_listeners := [0]\<rparr>, y_loops := [0 \<mapsto> Serving TLSStartTLS], y_next := 1\<rparr>"

lemma sample_start: "srv_step (srv_init cfg b) ((srv_init cfg b)\<lparr>y_main := Binding (Listeners cfg)\<rparr>)"
  using step_start [of "srv_init cfg b"] by (simp add: srv_init_def server_New_def)

lemma sample_bind:
  "srv_step ((srv_init sample_config True)\<lparr>y_main := Binding (Listeners sample_config)\<rparr>) sample_bound"
proof -
  let ?y = "(srv_init sample_config True)\<lparr>y_main := Binding (Listeners sample_config)\<rparr>"
  have l: "Listeners sample_config = \<lparr>l_Addr = '':25'', l_TLS = TLSStartTLS\<rparr> # tl (Listeners sample_config)"
    by (simp add: sample_config_def sample_config0_def Prepare_def Let_def split: prod.split)
  have "srv_step ?y (?y\<lparr>y_main := Binding (tl (Listeners sample_config)), y_open := insert (y_next ?y) (y_open ?y),
       y_srv := (y_srv ?y)\<lparr>srv_listeners := srv_listeners (y_srv ?y) @ [y_next ?y]\<rparr>,
       y_loops := (y_loops ?y)(y_next ?y \<mapsto> Serving TLSStartTLS), y_next := Suc (y_next ?y)\<rparr>)"
    by (rule step_bind [where l = "\<lparr>l_Addr = '':25'', l_TLS = TLSStartTLS\<rparr>" and listens = True])
      (use l in \<open>simp_all add: srv_init_def bind_def server_New_def mode_defs\<close>)
  then show ?thesis by (simp add: sample_bound_def srv_init_def server_New_def)
qed

lemma sample_bound_reach: "reach (srv_init sample_config True) srv_step sample_bound"
  by (rule reach.reach_step, rule reach.reach_step, rule reach.reach_init, rule sample_start, rule sample_bind)

text \<open>C10: The number of connections served at any time never exceeds \<^verbatim>\<open>max_connections\<close> of the
  configuration the server was started with, in every interleaving of accepts, session ends, reloads
  and closes: a reload does not change the limit.\<close>

theorem connection_limit_holds:
  assumes "reach (srv_init cfg0 tlsConf) srv_step y" "0 \<le> MaxConnections (c_Limits cfg0)"
  shows "int (length (y_sess y)) \<le> MaxConnections (c_Limits cfg0) \<and> length (y_sess y) = sem_len (y_srv y)"
  using accept_loop.reach_inv [OF assms(1)] assms(2) by (auto simp: srv_inv_def)

lemma sample_reach:
  "reach (srv_init sample_config True) srv_step
     ((srv_init sample_config True)\<lparr>y_main := Binding (tl (Listeners sample_config)), y_open := {0},
       y_srv := (server_New sample_config True)\<lparr>srv_listeners := [0], sem_len := 1\<rparr>, y_loops := [0 \<mapsto> Serving TLSStartTLS],
       y_next := 1, y_sess := [Accepted_conn TLSStartTLS]\<rparr>)"
proof -
  let ?y = sample_bound
  have c: "MaxConnections (c_Limits sample_config) = 64"
    by (simp add: sample_config_def sample_config0_def Prepare_def Let_def split: prod.split)
  have "srv_step ?y (accepted TLSStartTLS ?y)" by (rule step_accept [where ln = 0]) (simp_all add: sample_bound_def)
  with sample_bound_reach have "reach (srv_init sample_config True) srv_step (accepted TLSStartTLS ?y)"
    by (rule reach.reach_step)
  moreover have "accepted TLSStartTLS ?y = (srv_init sample_config True)\<lparr>y_main := Binding (tl (Listeners sample_config)), y_open := {0},
       y_srv := (server_New sample_config True)\<lparr>srv_listeners := [0], sem_len := 1\<rparr>, y_loops := [0 \<mapsto> Serving TLSStartTLS],
       y_next := 1, y_sess := [Accepted_conn TLSStartTLS]\<rparr>"
    by (simp add: accepted_def sample_bound_def srv_init_def server_New_def c)
  ultimately show ?thesis by simp
qed

theorem connection_limit_holds_witness:
  "int (length [Accepted_conn TLSStartTLS]) \<le> MaxConnections (c_Limits sample_config)"
proof -
  have "MaxConnections (c_Limits sample_config) = 64"
    by (simp add: sample_config_def sample_config0_def Prepare_def Let_def split: prod.split)
  then show ?thesis using connection_limit_holds [OF sample_reach] by simp
qed

text \<open>A session runs with one configuration: a step only adds a running session with the
  configuration current at that moment, so that a reload reaches new sessions and never one in
  progress.\<close>

lemma session_keeps_its_config:
  assumes "srv_step y z" "Running mode cfg \<in> set (y_sess z)"
  shows "Running mode cfg \<in> set (y_sess y) \<or> cfg = srv_cfg (y_srv y)"
  using assms
proof (cases rule: srv_step.cases)
  case (step_load i m)
  with assms(2) show ?thesis by (auto dest: set_update_subset_insert [THEN subsetD])
next
  case (step_end i m c)
  with assms(2) show ?thesis by (auto dest: in_set_takeD in_set_dropD)
qed (auto simp: accepted_def accept_failed_def Close_def split: if_splits)


lemma bind_all:
  assumes "y_main y = Binding ls" "srv_tlsConf (y_srv y)" "reach i srv_step y"
  shows "\<exists>z. reach i srv_step z \<and> y_main z = Waiting"
  using assms
proof (induction ls arbitrary: y)
  case Nil
  have "y_main (y\<lparr>y_main := Waiting\<rparr>) = Waiting" by simp
  with reach.reach_step [OF Nil.prems(3) step_bound [OF Nil.prems(1)]] show ?case by blast
next
  case (Cons l ls)
  have "bind True l (y_srv y) = Inr (l_TLS l)" using Cons.prems(2) by (simp add: bind_def)
  from reach.reach_step [OF Cons.prems(3) step_bind [OF Cons.prems(1) this]] show ?case
    by (rule Cons.IH [rotated 2]) (simp_all add: Cons.prems(2))
qed



end
