(* ===== verification/RetryQueue.thy ===== *)
theory RetryQueue
  imports Msg
begin

text \<open>
  The retry queue, \<^verbatim>\<open>internal/queue/queue.go\<close>.

  State: the entries, the byte count, the two channels as flags and, because the log is the only
  record of a lost message, the log. Every operation is one definition. The clock is a parameter
  \<open>N\<close> that reads the world, the wrapped dispatcher a parameter \<open>D\<close>. A nil route in
  \<^verbatim>\<open>tick\<close> panics, which is the result \<^const>\<open>None\<close>. \<^verbatim>\<open>Drain\<close> may run for
  ever on a clock that stands still, so its loop is a partial function.

  Between the locked sections of \<^verbatim>\<open>tick\<close> sessions may enqueue. The step relation
  \<open>queue_step\<close> has the locked sections as its steps, with any clock and any dispatcher result,
  so a run of it is an interleaving of sessions, worker and \<^verbatim>\<open>Drain\<close>.
\<close>

section \<open>State\<close>

record Entry =
  e_Msg :: Message
  Accepted :: int
  NextTry :: int
  Attempts :: "32 word"

datatype qevent =
    EvEntryLimit Message string nat
  | EvByteLimit Message string int int
  | EvQueued Message string nat
  | EvExpired Message string "32 word" int
  | EvDelivered Message string "32 word"
  | EvPermFail Message string "32 word" "goerr option"
  | EvLost Message string "32 word"

record Queue =
  q_cfg :: Retry
  entries :: "Entry list"
  q_bytes :: int
  q_log :: "qevent list"
  q_running :: bool
  q_stop :: bool
  q_done :: bool

definition q_say :: "qevent \<Rightarrow> Queue \<Rightarrow> Queue" where
  "q_say ev q = q\<lparr>q_log := q_log q @ [ev]\<rparr>"

definition routeName :: "Message \<Rightarrow> string" where
  "routeName m = (case m_Route m of None \<Rightarrow> '''' | Some r \<Rightarrow> r_Recipient r)"

definition New :: "Retry \<Rightarrow> Queue" where
  "New cfg = \<lparr>q_cfg = cfg, entries = [], q_bytes = 0, q_log = [], q_running = False,
     q_stop = False, q_done = False\<rparr>"

section \<open>Operations\<close>

definition enqueue :: "'w clock \<Rightarrow> Message \<Rightarrow> Queue \<times> 'w \<Rightarrow> bool \<times> Queue \<times> 'w" where
  "enqueue N m qw =
     (let (q, w) = qw; size = int (length (m_Body m))
      in if int (length (entries q)) \<ge> MaxEntries (q_cfg q) then
           (False, q_say (EvEntryLimit m (routeName m) (length (entries q))) q, w)
         else if wrap64 (q_bytes q + size) > MaxBytes (q_cfg q) then
           (False, q_say (EvByteLimit m (routeName m) (q_bytes q) size) q, w)
         else
           (let (now, w') = N w;
                q' = q\<lparr>entries := entries q @
                         [\<lparr>e_Msg = m, Accepted = now, NextTry = now + Interval (q_cfg q), Attempts = 0\<rparr>],
                       q_bytes := wrap64 (q_bytes q + size)\<rparr>
            in (True, q_say (EvQueued m (routeName m) (length (entries q'))) q', w')))"

definition queue_Dispatch ::
    "'w clock \<Rightarrow> 'w dispatcher \<Rightarrow> int \<Rightarrow> Message \<Rightarrow> Queue \<times> 'w \<Rightarrow> (Result \<times> goerr option) \<times> Queue \<times> 'w" where
  "queue_Dispatch N D ctx m qw =
     (let (q, w) = qw; ((res, err), w1) = D ctx m w
      in if res \<noteq> ResultTempFail then ((res, err), q, w1)
         else if \<not> Enabled (q_cfg q) then ((ResultTempFail, err), q, w1)
         else (case enqueue N m (q, w1) of
                 (True, qw2) \<Rightarrow> ((ResultQueued, err), qw2)
               | (False, qw2) \<Rightarrow> ((ResultTempFail, err), qw2)))"

text \<open>Swap the final element into the vacated slot and truncate. The zero value written to the
  slot behind the end of the slice is not visible.\<close>

definition remove :: "nat \<Rightarrow> Queue \<Rightarrow> Queue" where
  "remove i q =
     q\<lparr>q_bytes := wrap64 (q_bytes q - int (length (m_Body (e_Msg (entries q ! i))))),
       entries := butlast ((entries q)[i := last (entries q)])\<rparr>"

fun index_from :: "nat \<Rightarrow> Message \<Rightarrow> Entry list \<Rightarrow> nat option" where
  "index_from i m [] = None"
| "index_from i m (e # es) = (if m_id (e_Msg e) = m_id m then Some i else index_from (Suc i) m es)"

definition indexOf :: "Message \<Rightarrow> Queue \<Rightarrow> nat option" where
  "indexOf m q = index_from 0 m (entries q)"

definition Len :: "Queue \<Rightarrow> nat" where
  "Len q = length (entries q)"

text \<open>The expiry loop of \<^verbatim>\<open>tick\<close>, from the last index down.\<close>

fun expire_loop :: "int \<Rightarrow> nat \<Rightarrow> Queue \<Rightarrow> Queue" where
  "expire_loop now 0 q = q"
| "expire_loop now (Suc i) q =
     (let e = entries q ! i
      in if time_Sub now (Accepted e) \<le> Expire (q_cfg q) then expire_loop now i q
         else expire_loop now i (remove i
                (q_say (EvExpired (e_Msg e) (routeName (e_Msg e)) (Attempts e) (time_Sub now (Accepted e))) q)))"

definition due_msgs :: "int \<Rightarrow> Queue \<Rightarrow> Message list" where
  "due_msgs now q = map e_Msg (filter (\<lambda>e. \<not> now < NextTry e) (entries q))"

text \<open>The first locked section of \<^verbatim>\<open>tick\<close>.\<close>

definition tick_begin :: "int \<Rightarrow> Queue \<Rightarrow> Queue \<times> Message list" where
  "tick_begin now q = (let q' = expire_loop now (length (entries q)) q in (q', due_msgs now q'))"

text \<open>The locked section after one attempt. The clock is read in the default branch only.\<close>

definition record_attempt ::
    "'w clock \<Rightarrow> Result \<Rightarrow> goerr option \<Rightarrow> Message \<Rightarrow> Queue \<times> 'w \<Rightarrow> Queue \<times> 'w" where
  "record_attempt N res err m qw =
     (let (q, w) = qw
      in case indexOf m q of
           None \<Rightarrow> (q, w)
         | Some i \<Rightarrow>
             (let e = entries q ! i
              in case res of
                   ResultOK \<Rightarrow> (remove i (q_say (EvDelivered m (routeName m) (Attempts e + 1)) q), w)
                 | ResultPermFail \<Rightarrow>
                     (remove i (q_say (EvPermFail m (routeName m) (Attempts e + 1) err) q), w)
                 | _ \<Rightarrow>
                     (let (now, w') = N w
                      in (q\<lparr>entries := (entries q)[i := e\<lparr>Attempts := Attempts e + 1,
                              NextTry := now + Interval (q_cfg q)\<rparr>]\<rparr>, w'))))"

fun attempt_all ::
    "'w clock \<Rightarrow> 'w dispatcher \<Rightarrow> Message list \<Rightarrow> Queue \<times> 'w \<Rightarrow> (Queue \<times> 'w) option" where
  "attempt_all N D [] qw = Some qw"
| "attempt_all N D (m # ms) qw =
     (case m_Route m of
        None \<Rightarrow> None
      | Some r \<Rightarrow>
          (let (q, w) = qw; ((res, err), w1) = D (RouteTimeout r) m w
           in attempt_all N D ms (record_attempt N res err m (q, w1))))"

definition tick :: "'w clock \<Rightarrow> 'w dispatcher \<Rightarrow> Queue \<times> 'w \<Rightarrow> (Queue \<times> 'w) option" where
  "tick N D qw =
     (let (q, w) = qw; (now, w1) = N w; (q1, due) = tick_begin now q
      in attempt_all N D due (q1, w1))"

definition Start :: "Queue \<Rightarrow> Queue" where
  "Start q = (if \<not> Enabled (q_cfg q) then q\<lparr>q_done := True\<rparr> else q\<lparr>q_running := True\<rparr>)"

text \<open>The worker loop over what its select receives: a tick of the ticker, or the closed stop
  channel.\<close>

fun run :: "'w clock \<Rightarrow> 'w dispatcher \<Rightarrow> bool list \<Rightarrow> Queue \<times> 'w \<Rightarrow> (Queue \<times> 'w) option" where
  "run N D [] qw = Some qw"
| "run N D (ticked # evs) qw =
     (if ticked then (case tick N D qw of None \<Rightarrow> None | Some qw' \<Rightarrow> run N D evs qw')
      else Some ((fst qw)\<lparr>q_running := False, q_done := True\<rparr>, snd qw))"

definition zero_next :: "Queue \<Rightarrow> Queue" where
  "zero_next q = q\<lparr>entries := map (\<lambda>e. e\<lparr>NextTry := 0\<rparr>) (entries q)\<rparr>"

partial_function (option) drain_loop ::
    "'w clock \<Rightarrow> 'w dispatcher \<Rightarrow> int \<Rightarrow> Queue \<times> 'w \<Rightarrow> (Queue \<times> 'w) option" where
  "drain_loop N D deadline qw =
     (if Len (fst qw) = 0 then Some qw
      else (case N (snd qw) of
              (now, w) \<Rightarrow>
                if now < deadline
                then Option.bind (tick N D (zero_next (fst qw), w)) (drain_loop N D deadline)
                else Some (fst qw, w)))"

definition report_lost :: "Queue \<Rightarrow> Queue" where
  "report_lost q =
     fold (\<lambda>e. q_say (EvLost (e_Msg e) (routeName (e_Msg e)) (Attempts e))) (entries q) q"

text \<open>\<^verbatim>\<open>Drain\<close>, called once the worker has left its loop.\<close>

definition Drain :: "'w clock \<Rightarrow> 'w dispatcher \<Rightarrow> int \<Rightarrow> Queue \<times> 'w \<Rightarrow> (Queue \<times> 'w) option" where
  "Drain N D limit qw =
     (let (q, w) = qw
      in if \<not> Enabled (q_cfg q) then Some (q, w)
         else
           (let q1 = q\<lparr>q_stop := True\<rparr>; (now, w1) = N w
            in case drain_loop N D (now + limit) (q1, w1) of
                 None \<Rightarrow> None
               | Some (q2, w2) \<Rightarrow> Some (report_lost q2, w2)))"

section \<open>Interleavings\<close>

datatype worker = Idle | Trying "Message list"

record qsys =
  sys_q :: Queue
  sys_worker :: worker
  sys_seen :: "nat set"

text \<open>The addresses already used are a history variable: a new message has a new address.\<close>

inductive queue_step :: "qsys \<Rightarrow> qsys \<Rightarrow> bool" where
  step_enqueue:
    "m_id m \<notin> sys_seen s \<Longrightarrow> m_Route m \<noteq> None \<Longrightarrow> int (length (m_Body m)) < 2 ^ 62 \<Longrightarrow>
     enqueue (\<lambda>_. (now, ())) m (sys_q s, ()) = (b, q, ()) \<Longrightarrow>
     queue_step s (s\<lparr>sys_q := q, sys_seen := insert (m_id m) (sys_seen s)\<rparr>)"
| step_begin:
    "sys_worker s = Idle \<Longrightarrow> tick_begin now (sys_q s) = (q, due) \<Longrightarrow>
     queue_step s (s\<lparr>sys_q := q, sys_worker := Trying due\<rparr>)"
| step_record:
    "sys_worker s = Trying (m # ms) \<Longrightarrow>
     record_attempt (\<lambda>_. (now, ())) res err m (sys_q s, ()) = (q, ()) \<Longrightarrow>
     queue_step s (s\<lparr>sys_q := q, sys_worker := Trying ms\<rparr>)"
| step_end:
    "sys_worker s = Trying [] \<Longrightarrow> queue_step s (s\<lparr>sys_worker := Idle\<rparr>)"
| step_rewind:
    "sys_worker s = Idle \<Longrightarrow> queue_step s (s\<lparr>sys_q := zero_next (sys_q s)\<rparr>)"

definition qsys_init :: "Retry \<Rightarrow> qsys" where
  "qsys_init cfg = \<lparr>sys_q = New cfg, sys_worker = Idle, sys_seen = {}\<rparr>"

section \<open>The slice as a bag\<close>

lemma mset_swap_remove:
  assumes "i < length es"
  shows "mset (butlast (es[i := last es])) = mset es - {#es ! i#}"
proof (cases es rule: rev_cases)
  case (snoc b l)
  show ?thesis
  proof (cases "i < length b")
    case True
    then have "mset (butlast (es[i := last es])) = add_mset l (mset b - {#b ! i#})"
      by (simp add: snoc list_update_append mset_update)
    also have "\<dots> = mset es - {#es ! i#}"
      using True by (simp add: snoc nth_append add_mset_diff_bothsides insert_DiffM2 diff_add_mset_swap)
    finally show ?thesis .
  next
    case False
    then have "i = length b" using assms snoc by simp
    then show ?thesis by (simp add: snoc)
  qed
qed (use assms in simp)

lemma nth_swap_remove:
  "i < length es \<Longrightarrow> j < i \<Longrightarrow> butlast (es[i := last es]) ! j = es ! j"
  by (simp add: nth_butlast)

text \<open>The interface of an indexed container with removal: removal takes one element out of the bag
  and leaves the elements below the index in place. A sweep from the last index down that removes
  what satisfies a predicate then leaves the rest.\<close>

locale indexed_bag =
  fixes size_of :: "'q \<Rightarrow> nat" and nth_of :: "'q \<Rightarrow> nat \<Rightarrow> 'e" and del :: "nat \<Rightarrow> 'q \<Rightarrow> 'q"
    and bag :: "'q \<Rightarrow> 'e multiset"
  assumes bag_nth: "bag q = mset (map (nth_of q) [0..<size_of q])"
    and del_bag: "i < size_of q \<Longrightarrow> bag (del i q) = bag q - {#nth_of q i#}"
    and del_size: "i < size_of q \<Longrightarrow> size_of (del i q) = size_of q - 1"
    and del_below: "i < size_of q \<Longrightarrow> j < i \<Longrightarrow> nth_of (del i q) j = nth_of q j"
begin

primrec sweep :: "('e \<Rightarrow> bool) \<Rightarrow> nat \<Rightarrow> 'q \<Rightarrow> 'q" where
  "sweep P 0 q = q"
| "sweep P (Suc i) q = sweep P i (if P (nth_of q i) then del i q else q)"

lemma sweep_prefix:
  "i \<le> size_of q \<Longrightarrow>
     bag (sweep P i q) = bag q - filter_mset P (mset (map (nth_of q) [0..<i]))"
proof (induction i arbitrary: q)
  case (Suc i)
  show ?case
  proof (cases "P (nth_of q i)")
    case True
    have "i \<le> size_of (del i q)" "map (nth_of (del i q)) [0..<i] = map (nth_of q) [0..<i]"
      using Suc.prems by (auto simp: del_size del_below)
    with Suc.IH [of "del i q"] True Suc.prems show ?thesis
      by (simp add: del_bag)
  next
    case False
    with Suc show ?thesis by simp
  qed
qed simp

lemma sweep_keeps:
  assumes "\<And>i q. i < size_of q \<Longrightarrow> I q \<Longrightarrow> I (del i q)"
  shows "i \<le> size_of q \<Longrightarrow> I q \<Longrightarrow> I (sweep P i q)"
proof (induction i arbitrary: q)
  case (Suc i)
  then show ?case using assms [of i q] by (simp add: del_size)
qed simp

lemma sweep_all: "bag (sweep P (size_of q) q) = filter_mset (\<lambda>e. \<not> P e) (bag q)"
proof -
  have "bag q = filter_mset P (bag q) + filter_mset (\<lambda>e. \<not> P e) (bag q)"
    by (simp add: multiset_partition)
  then have "bag q - filter_mset P (bag q) = filter_mset (\<lambda>e. \<not> P e) (bag q)"
    by (metis add_diff_cancel_left')
  then show ?thesis using sweep_prefix [of "size_of q" q P] bag_nth [of q] by (simp only: order_refl simp_thms)
qed

end

text \<open>One turn of the expiry loop that removes.\<close>

definition expire_one :: "int \<Rightarrow> nat \<Rightarrow> Queue \<Rightarrow> Queue" where
  "expire_one now i q =
     (let e = entries q ! i
      in remove i (q_say (EvExpired (e_Msg e) (routeName (e_Msg e)) (Attempts e)
           (time_Sub now (Accepted e))) q))"

definition expired :: "int \<Rightarrow> Retry \<Rightarrow> Entry \<Rightarrow> bool" where
  "expired now cfg e \<longleftrightarrow> Expire cfg < time_Sub now (Accepted e)"

lemma q_say_simps [simp]:
  "entries (q_say ev q) = entries q" "q_bytes (q_say ev q) = q_bytes q" "q_cfg (q_say ev q) = q_cfg q"
  "q_log (q_say ev q) = q_log q @ [ev]"
  by (simp_all add: q_say_def)

lemma remove_simps [simp]:
  "q_cfg (remove i q) = q_cfg q" "q_log (remove i q) = q_log q"
  "entries (remove i q) = butlast ((entries q)[i := last (entries q)])"
  "q_bytes (remove i q) = wrap64 (q_bytes q - int (length (m_Body (e_Msg (entries q ! i)))))"
  by (simp_all add: remove_def)

interpretation expiry: indexed_bag
  "\<lambda>q. length (entries q)" "\<lambda>q i. entries q ! i" "expire_one now" "\<lambda>q. mset (entries q)"
  by unfold_locales
    (simp_all add: map_nth expire_one_def Let_def mset_swap_remove nth_swap_remove nth_butlast)

lemma expire_one_cfg [simp]: "q_cfg (expire_one now i q) = q_cfg q"
  by (simp add: expire_one_def Let_def)

lemma expire_loop_Suc:
  "expire_loop now (Suc i) q =
     expire_loop now i (if expired now (q_cfg q) (entries q ! i) then expire_one now i q else q)"
  by (simp add: expire_one_def expired_def Let_def not_less)

lemma expire_loop_sweep:
  "expire_loop now i q = expiry.sweep now (expired now (q_cfg q)) i q"
proof (induction i arbitrary: q)
  case (Suc i)
  show ?case
    unfolding expire_loop_Suc expiry.sweep.simps Suc.IH
    by (cases "expired now (q_cfg q) (entries q ! i)") simp_all
qed simp

lemma expire_loop_entries:
  "mset (entries (expire_loop now (length (entries q)) q)) =
     filter_mset (\<lambda>e. \<not> expired now (q_cfg q) e) (mset (entries q))"
  by (simp add: expire_loop_sweep expiry.sweep_all)

section \<open>The invariant of the queue\<close>

fun ev_queued :: "qevent \<Rightarrow> nat multiset" where
  "ev_queued (EvQueued m _ _) = {#m_id m#}"
| "ev_queued _ = {#}"

text \<open>The events that close the record of a queued message: delivery, a permanent failure, expiry.\<close>

fun ev_final :: "qevent \<Rightarrow> nat multiset" where
  "ev_final (EvExpired m _ _ _) = {#m_id m#}"
| "ev_final (EvDelivered m _ _) = {#m_id m#}"
| "ev_final (EvPermFail m _ _ _) = {#m_id m#}"
| "ev_final _ = {#}"

definition queued_ids :: "qevent list \<Rightarrow> nat multiset" where
  "queued_ids l = sum_list (map ev_queued l)"

definition final_ids :: "qevent list \<Rightarrow> nat multiset" where
  "final_ids l = sum_list (map ev_final l)"

definition held :: "Queue \<Rightarrow> nat multiset" where
  "held q = image_mset (\<lambda>e. m_id (e_Msg e)) (mset (entries q))"

abbreviation entry_size :: "Entry \<Rightarrow> nat" where
  "entry_size e \<equiv> length (m_Body (e_Msg e))"

definition at_most_once :: "nat multiset \<Rightarrow> bool" where
  "at_most_once M \<longleftrightarrow> (\<forall>i. count M i \<le> 1)"

definition total_size :: "Queue \<Rightarrow> nat" where
  "total_size q = (\<Sum>e \<in># mset (entries q). entry_size e)"

definition queue_inv :: "Retry \<Rightarrow> Queue \<Rightarrow> bool" where
  "queue_inv cfg q \<longleftrightarrow>
     q_cfg q = cfg \<and> 0 \<le> MaxBytes cfg \<and> MaxBytes cfg < 2 ^ 62 \<and>
     q_bytes q = int (total_size q) \<and> q_bytes q \<le> MaxBytes cfg \<and>
     int (length (entries q)) \<le> MaxEntries cfg \<and>
     (\<forall>m \<in> e_Msg ` set (entries q). m_Route m \<noteq> None) \<and>
     queued_ids (q_log q) = held q + final_ids (q_log q) \<and>
     at_most_once (held q + final_ids (q_log q))"

lemma ids_simps [simp]:
  "queued_ids [] = {#}" "final_ids [] = {#}"
  "queued_ids (l @ [ev]) = queued_ids l + ev_queued ev"
  "final_ids (l @ [ev]) = final_ids l + ev_final ev"
  by (simp_all add: queued_ids_def final_ids_def)

lemma at_most_once_add:
  "at_most_once M \<Longrightarrow> x \<notin># M \<Longrightarrow> at_most_once (add_mset x M)"
  by (auto simp: at_most_once_def not_in_iff)

lemma New_inv:
  "0 \<le> MaxEntries cfg \<Longrightarrow> 0 \<le> MaxBytes cfg \<Longrightarrow> MaxBytes cfg < 2 ^ 62 \<Longrightarrow> queue_inv cfg (New cfg)"
  by (simp add: queue_inv_def New_def total_size_def held_def at_most_once_def)

lemma say_bag [simp]: "held (q_say ev q) = held q" "total_size (q_say ev q) = total_size q"
  by (simp_all add: held_def total_size_def)

lemma say_inv:
  "queue_inv cfg q \<Longrightarrow> ev_queued ev = {#} \<Longrightarrow> ev_final ev = {#} \<Longrightarrow> queue_inv cfg (q_say ev q)"
  unfolding queue_inv_def by simp

lemma remove_bag:
  assumes "i < length (entries q)"
  shows "held q = add_mset (m_id (e_Msg (entries q ! i))) (held (remove i q))"
    and "total_size q = entry_size (entries q ! i) + total_size (remove i q)"
proof -
  have "mset (entries q) = add_mset (entries q ! i) (mset (entries (remove i q)))"
    using assms by (simp add: mset_swap_remove)
  then show "held q = add_mset (m_id (e_Msg (entries q ! i))) (held (remove i q))"
    "total_size q = entry_size (entries q ! i) + total_size (remove i q)"
    unfolding held_def total_size_def by simp_all
qed

lemma remove_inv:
  assumes "queue_inv cfg q" "i < length (entries q)"
    and ev: "ev_queued ev = {#}" "ev_final ev = {#m_id (e_Msg (entries q ! i))#}"
  shows "queue_inv cfg (remove i (q_say ev q))"
proof -
  let ?e = "entries q ! i" and ?q = "remove i (q_say ev q)"
  have b: "held q = add_mset (m_id (e_Msg ?e)) (held ?q)"
    "total_size q = entry_size ?e + total_size ?q"
    using remove_bag [of i "q_say ev q"] assms(2) by (simp_all add: held_def total_size_def)
  have "mset (entries ?q) \<subseteq># mset (entries q)"
    using assms(2) by (simp add: mset_swap_remove)
  then have sub: "set (entries ?q) \<subseteq> set (entries q)"
    by (metis set_mset_mono set_mset_mset)
  have "in_int64 (q_bytes q - int (entry_size ?e))"
    using assms(1) b(2) by (auto simp: queue_inv_def in_int64_def)
  then have "q_bytes ?q = int (total_size ?q)"
    using assms(1) b(2) by (simp add: queue_inv_def)
  with assms b sub show ?thesis
    by (auto simp: queue_inv_def)
qed

lemma expire_one_inv:
  "queue_inv cfg q \<Longrightarrow> i < length (entries q) \<Longrightarrow> queue_inv cfg (expire_one now i q)"
  unfolding expire_one_def Let_def by (rule remove_inv) simp_all

lemma expire_loop_inv:
  "queue_inv cfg q \<Longrightarrow> queue_inv cfg (expire_loop now (length (entries q)) q)"
  unfolding expire_loop_sweep
  by (rule expiry.sweep_keeps) (auto intro: expire_one_inv)

lemma enqueue_cases:
  assumes "enqueue N m (q, w) = (b, q', w')"
  obtains (entries) "\<not> b" "w' = w" "MaxEntries (q_cfg q) \<le> int (length (entries q))"
      "q' = q_say (EvEntryLimit m (routeName m) (length (entries q))) q"
  | (bytes) "\<not> b" "w' = w" "int (length (entries q)) < MaxEntries (q_cfg q)"
      "MaxBytes (q_cfg q) < wrap64 (q_bytes q + int (length (m_Body m)))"
      "q' = q_say (EvByteLimit m (routeName m) (q_bytes q) (int (length (m_Body m)))) q"
  | (added) now where "b" "N w = (now, w')" "int (length (entries q)) < MaxEntries (q_cfg q)"
      "wrap64 (q_bytes q + int (length (m_Body m))) \<le> MaxBytes (q_cfg q)"
      "entries q' = entries q @ [\<lparr>e_Msg = m, Accepted = now, NextTry = now + Interval (q_cfg q), Attempts = 0\<rparr>]"
      "q_bytes q' = wrap64 (q_bytes q + int (length (m_Body m)))" "q_cfg q' = q_cfg q"
      "q_log q' = q_log q @ [EvQueued m (routeName m) (Suc (length (entries q)))]"
  using assms
  by (auto simp: enqueue_def Let_def split: if_splits prod.splits)

lemma enqueue_inv:
  assumes "enqueue N m (q, w) = (b, q', w')" "queue_inv cfg q"
    and "m_id m \<notin># queued_ids (q_log q)" "m_Route m \<noteq> None" "int (length (m_Body m)) < 2 ^ 62"
  shows "queue_inv cfg q'"
  using assms(1)
proof (cases rule: enqueue_cases)
  case (added now)
  have "in_int64 (q_bytes q + int (length (m_Body m)))"
    using assms by (auto simp: queue_inv_def in_int64_def)
  then have b: "q_bytes q' = q_bytes q + int (length (m_Body m))"
    "q_bytes q + int (length (m_Body m)) \<le> MaxBytes cfg"
    using added assms(2) by (simp_all add: queue_inv_def)
  have "total_size q' = total_size q + length (m_Body m)" "held q' = add_mset (m_id m) (held q)"
    by (simp_all add: total_size_def held_def added)
  with added b assms show ?thesis
    by (auto simp: queue_inv_def at_most_once_add)
next
  case entries
  with assms(2) show ?thesis by (simp add: say_inv)
next
  case bytes
  with assms(2) show ?thesis by (simp add: say_inv)
qed

lemma index_from_Some:
  "index_from k m es = Some i \<Longrightarrow>
     k \<le> i \<and> i < k + length es \<and> m_id (e_Msg (es ! (i - k))) = m_id m"
proof (induction es arbitrary: k)
  case (Cons e es)
  show ?case
  proof (cases "m_id (e_Msg e) = m_id m")
    case True
    with Cons.prems show ?thesis by simp
  next
    case False
    with Cons.prems Cons.IH [of "Suc k"] have "Suc k \<le> i" "i < Suc k + length es"
      "m_id (e_Msg (es ! (i - Suc k))) = m_id m" by simp_all
    moreover from this have "i - k = Suc (i - Suc k)" by simp
    ultimately show ?thesis by simp
  qed
qed simp

lemma index_from_None: "index_from k m es = None \<longleftrightarrow> (\<forall>e \<in> set es. m_id (e_Msg e) \<noteq> m_id m)"
  by (induction es arbitrary: k) auto

lemma indexOf_Some:
  "indexOf m q = Some i \<Longrightarrow> i < length (entries q) \<and> m_id (e_Msg (entries q ! i)) = m_id m"
  using index_from_Some [of 0 m "entries q" i] by (simp add: indexOf_def)

lemma indexOf_None: "indexOf m q = None \<longleftrightarrow> m_id m \<notin># held q"
  by (simp add: indexOf_def index_from_None held_def image_iff) metis

definition retry_entry :: "int \<Rightarrow> Retry \<Rightarrow> Entry \<Rightarrow> Entry" where
  "retry_entry now cfg e = e\<lparr>Attempts := Attempts e + 1, NextTry := now + Interval cfg\<rparr>"

lemma retry_entry_msgs:
  "i < length es \<Longrightarrow> map e_Msg (es[i := retry_entry now cfg (es ! i)]) = map e_Msg es"
  by (simp add: map_update retry_entry_def) (metis list_update_id nth_map)

lemma record_attempt_cases:
  assumes "record_attempt N res err m (q, w) = (q', w')"
  obtains (gone) "m_id m \<notin># held q" "q' = q" "w' = w"
  | (closed) i ev where "i < length (entries q)" "m_id (e_Msg (entries q ! i)) = m_id m" "w' = w"
      "res = ResultOK \<or> res = ResultPermFail" "ev_queued ev = {#}" "ev_final ev = {#m_id m#}"
      "q' = remove i (q_say ev q)"
  | (again) i now where "i < length (entries q)" "m_id (e_Msg (entries q ! i)) = m_id m" "N w = (now, w')"
      "res = ResultTempFail \<or> res = ResultQueued"
      "q' = q\<lparr>entries := (entries q)[i := retry_entry now (q_cfg q) (entries q ! i)]\<rparr>"
proof (cases "indexOf m q")
  case None
  then have "q' = q" "w' = w" using assms by (simp_all add: record_attempt_def)
  moreover from None have "m_id m \<notin># held q" by (simp add: indexOf_None)
  ultimately show ?thesis using that(1) by blast
next
  case (Some i)
  note i = indexOf_Some [OF Some]
  show ?thesis
  proof (cases res)
    case ResultOK
    with assms Some i show ?thesis
      by (intro that(2) [of i "EvDelivered m (routeName m) (Attempts (entries q ! i) + 1)"])
        (simp_all add: record_attempt_def Let_def)
  next
    case ResultPermFail
    with assms Some i show ?thesis
      by (intro that(2) [of i "EvPermFail m (routeName m) (Attempts (entries q ! i) + 1) err"])
        (simp_all add: record_attempt_def Let_def)
  next
    case ResultTempFail
    with assms Some i show ?thesis
      by (intro that(3) [of i "fst (N w)"])
        (simp_all add: record_attempt_def Let_def retry_entry_def split: prod.splits)
  next
    case ResultQueued
    with assms Some i show ?thesis
      by (intro that(3) [of i "fst (N w)"])
        (simp_all add: record_attempt_def Let_def retry_entry_def split: prod.splits)
  qed
qed

lemma entries_update_inv:
  assumes "queue_inv cfg q" "map e_Msg es = map e_Msg (entries q)"
  shows "queue_inv cfg (q\<lparr>entries := es\<rparr>)"
proof -
  have m: "image_mset e_Msg (mset es) = image_mset e_Msg (mset (entries q))"
    using assms(2) by (metis mset_map)
  have "held (q\<lparr>entries := es\<rparr>) = image_mset m_id (image_mset e_Msg (mset es))"
    "total_size (q\<lparr>entries := es\<rparr>) = sum_mset (image_mset (\<lambda>m. length (m_Body m)) (image_mset e_Msg (mset es)))"
    "held q = image_mset m_id (image_mset e_Msg (mset (entries q)))"
    "total_size q = sum_mset (image_mset (\<lambda>m. length (m_Body m)) (image_mset e_Msg (mset (entries q))))"
    by (simp_all add: held_def total_size_def multiset.map_comp o_def)
  then have s: "held (q\<lparr>entries := es\<rparr>) = held q" "total_size (q\<lparr>entries := es\<rparr>) = total_size q"
    by (simp_all only: m)
  have "length es = length (entries q)" "e_Msg ` set es = e_Msg ` set (entries q)"
    using assms(2) by (metis length_map, metis list.set_map)
  with assms(1) s show ?thesis
    by (simp add: queue_inv_def)
qed

lemma record_attempt_inv:
  assumes "record_attempt N res err m (q, w) = (q', w')" "queue_inv cfg q"
  shows "queue_inv cfg q'"
  using assms(1)
proof (cases rule: record_attempt_cases)
  case gone
  with assms(2) show ?thesis by simp
next
  case (closed i ev)
  with assms(2) show ?thesis by (auto intro!: remove_inv)
next
  case (again i now)
  with assms(2) retry_entry_msgs [OF again(1)] show ?thesis by (auto intro: entries_update_inv)
qed

lemma zero_next_log [simp]: "q_log (zero_next q) = q_log q"
  by (simp add: zero_next_def)

lemma zero_next_inv: "queue_inv cfg q \<Longrightarrow> queue_inv cfg (zero_next q)"
  unfolding zero_next_def by (rule entries_update_inv) simp_all

section \<open>The invariant of the interleavings\<close>

definition queue_limits :: "Retry \<Rightarrow> bool" where
  "queue_limits cfg \<longleftrightarrow> 0 \<le> MaxEntries cfg \<and> 0 \<le> MaxBytes cfg \<and> MaxBytes cfg < 2 ^ 62"

definition trying_inv :: "Message list \<Rightarrow> Queue \<Rightarrow> bool" where
  "trying_inv ms q \<longleftrightarrow> distinct (map m_id ms) \<and> set ms \<subseteq> e_Msg ` set (entries q)"

definition sys_inv :: "Retry \<Rightarrow> qsys \<Rightarrow> bool" where
  "sys_inv cfg s \<longleftrightarrow> queue_inv cfg (sys_q s) \<and>
     set_mset (queued_ids (q_log (sys_q s))) \<subseteq> sys_seen s \<and>
     (\<forall>ms. sys_worker s = Trying ms \<longrightarrow> trying_inv ms (sys_q s))"

inductive_cases queue_stepE: "queue_step s t"

lemma held_distinct: "queue_inv cfg q \<Longrightarrow> distinct (map (\<lambda>e. m_id (e_Msg e)) (entries q))"
proof -
  assume "queue_inv cfg q"
  then have "count (held q) i \<le> 1" for i
    by (auto simp: queue_inv_def at_most_once_def dest: spec [of _ i])
  then have "count (mset (map (\<lambda>e. m_id (e_Msg e)) (entries q))) i \<le> 1" for i
    by (simp add: held_def)
  then show ?thesis
    unfolding distinct_count_atmost_1
    by (metis One_nat_def count_eq_zero_iff le_Suc_eq le_zero_eq set_mset_mset)
qed

lemma due_trying: "queue_inv cfg q \<Longrightarrow> trying_inv (due_msgs now q) q"
  using held_distinct [of cfg q]
  by (auto simp: trying_inv_def due_msgs_def o_def intro: distinct_map_filter)

lemma log_remove_ids:
  "ev_queued ev = {#} \<Longrightarrow> queued_ids (q_log (remove i (q_say ev q))) = queued_ids (q_log q)"
  by simp

lemma expire_loop_queued:
  "queued_ids (q_log (expire_loop now i q)) = queued_ids (q_log q)"
  by (induction i arbitrary: q) (simp_all add: Let_def)

lemma remove_other:
  assumes "i < length (entries q)" "x \<in> e_Msg ` set (entries q)" "m_id x \<noteq> m_id (e_Msg (entries q ! i))"
  shows "x \<in> e_Msg ` set (entries (remove i q))"
proof -
  obtain e where e: "e \<in># mset (entries q)" "x = e_Msg e" using assms(2) by auto
  with assms(3) have "e \<noteq> entries q ! i" by auto
  with e have "e \<in># mset (entries q) - {#entries q ! i#}" by (simp add: in_diff_count)
  with assms(1) have "e \<in># mset (entries (remove i q))" by (simp add: mset_swap_remove)
  with e(2) show ?thesis by auto
qed

lemma record_attempt_trying:
  assumes "record_attempt N res err m (q, w) = (q', w')" "trying_inv (m # ms) q"
  shows "trying_inv ms q' \<and> queued_ids (q_log q') = queued_ids (q_log q)"
  using assms(1)
proof (cases rule: record_attempt_cases)
  case (closed i ev)
  have "x \<in> e_Msg ` set (entries q')" if "x \<in> set ms" for x
  proof -
    have "x \<in> e_Msg ` set (entries (q_say ev q))" "m_id x \<noteq> m_id m"
      using assms(2) that by (auto simp: trying_inv_def) (metis imageI)
    then show ?thesis
      unfolding closed(7) using closed(1,2) by (intro remove_other) simp_all
  qed
  with closed assms(2) show ?thesis by (auto simp: trying_inv_def)
next
  case (again i now)
  have "set (map e_Msg (entries q')) = set (map e_Msg (entries q))"
    using again(5) retry_entry_msgs [OF again(1), of now "q_cfg q"] by simp
  with assms(2) again(5) show ?thesis by (auto simp: trying_inv_def)
qed (use assms(2) in \<open>auto simp: trying_inv_def\<close>)

lemma enqueue_trying:
  assumes "enqueue N m (q, w) = (b, q', w')"
  shows "e_Msg ` set (entries q) \<subseteq> e_Msg ` set (entries q')"
    and "set_mset (queued_ids (q_log q')) \<subseteq> insert (m_id m) (set_mset (queued_ids (q_log q)))"
  using assms by (cases rule: enqueue_cases; auto)+

lemma queue_step_inv:
  assumes "queue_step s t" "sys_inv cfg s"
  shows "sys_inv cfg t"
  using assms(1)
proof (cases rule: queue_step.cases)
  case (step_enqueue m now b q)
  have "m_id m \<notin># queued_ids (q_log (sys_q s))"
    using assms(2) step_enqueue(2) by (auto simp: sys_inv_def)
  then have "queue_inv cfg q"
    using enqueue_inv [OF step_enqueue(5)] assms(2) step_enqueue by (auto simp: sys_inv_def)
  with assms(2) step_enqueue(1) enqueue_trying [OF step_enqueue(5)] show ?thesis
    by (fastforce simp: sys_inv_def trying_inv_def)
next
  case (step_begin now q due)
  then have "q = expire_loop now (length (entries (sys_q s))) (sys_q s)" "due = due_msgs now q"
    by (auto simp: tick_begin_def Let_def)
  with assms(2) step_begin(1) expire_loop_inv [of cfg "sys_q s" now] due_trying [of cfg q now]
  show ?thesis by (auto simp: sys_inv_def expire_loop_queued)
next
  case (step_record m ms now res err q)
  with assms(2) record_attempt_inv [OF step_record(3)] record_attempt_trying [OF step_record(3)]
  show ?thesis by (auto simp: sys_inv_def)
next
  case step_end
  with assms(2) show ?thesis by (simp add: sys_inv_def)
next
  case step_rewind
  with assms(2) show ?thesis by (auto simp: sys_inv_def zero_next_inv)
qed

interpretation retry_queue: invariant_system "qsys_init cfg" queue_step
    "\<lambda>s. queue_limits cfg \<longrightarrow> sys_inv cfg s"
proof unfold_locales
  show "queue_limits cfg \<longrightarrow> sys_inv cfg (qsys_init cfg)"
    by (auto simp: queue_limits_def sys_inv_def qsys_init_def intro: New_inv) (simp add: New_def)
  show "queue_step s t \<Longrightarrow> queue_limits cfg \<longrightarrow> sys_inv cfg s \<Longrightarrow> queue_limits cfg \<longrightarrow> sys_inv cfg t" for s t
    using queue_step_inv by blast
qed

section \<open>The sequential worker\<close>

lemma record_attempt_clock:
  "record_attempt (\<lambda>_. (fst (N w), ())) res err m (q, ()) = (fst (record_attempt N res err m (q, w)), ())"
  by (auto simp: record_attempt_def Let_def split: option.splits Result.splits prod.splits)

lemma attempt_all_steps:
  assumes "attempt_all N D ms (q, w) = Some (q', w')"
  shows "queue_step\<^sup>*\<^sup>* \<lparr>sys_q = q, sys_worker = Trying ms, sys_seen = S\<rparr>
     \<lparr>sys_q = q', sys_worker = Trying [], sys_seen = S\<rparr>"
  using assms
proof (induction ms arbitrary: q w)
  case (Cons m ms)
  obtain r where r: "m_Route m = Some r" using Cons.prems by (cases "m_Route m") auto
  obtain res err w1 where d: "D (RouteTimeout r) m w = ((res, err), w1)" by (metis prod.collapse)
  obtain q1 w2 where q1: "record_attempt N res err m (q, w1) = (q1, w2)" by fastforce
  have "queue_step \<lparr>sys_q = q, sys_worker = Trying (m # ms), sys_seen = S\<rparr>
      (\<lparr>sys_q = q, sys_worker = Trying (m # ms), sys_seen = S\<rparr>\<lparr>sys_q := q1, sys_worker := Trying ms\<rparr>)"
    by (rule queue_step.step_record [where now = "fst (N w1)" and res = res and err = err])
      (use record_attempt_clock [of N w1 res err m q] q1 in simp_all)
  then have "queue_step \<lparr>sys_q = q, sys_worker = Trying (m # ms), sys_seen = S\<rparr>
      \<lparr>sys_q = q1, sys_worker = Trying ms, sys_seen = S\<rparr>" by simp
  moreover have "attempt_all N D ms (q1, w2) = Some (q', w')"
    using Cons.prems by (simp add: r d q1)
  ultimately show ?case using Cons.IH by (meson converse_rtranclp_into_rtranclp)
qed simp

lemma tick_steps:
  assumes "tick N D (q, w) = Some (q', w')"
  shows "queue_step\<^sup>*\<^sup>* \<lparr>sys_q = q, sys_worker = Idle, sys_seen = S\<rparr>
     \<lparr>sys_q = q', sys_worker = Idle, sys_seen = S\<rparr>"
proof -
  let ?s = "\<lambda>q pc. \<lparr>sys_q = q, sys_worker = pc, sys_seen = S\<rparr>"
  obtain now w1 where n: "N w = (now, w1)" by fastforce
  obtain q1 due where b: "tick_begin now q = (q1, due)" by fastforce
  have "queue_step (?s q Idle) ((?s q Idle)\<lparr>sys_q := q1, sys_worker := Trying due\<rparr>)"
    by (rule queue_step.step_begin [where now = now]) (simp_all add: b)
  then have "queue_step\<^sup>*\<^sup>* (?s q Idle) (?s q1 (Trying due))" by simp
  also have "queue_step\<^sup>*\<^sup>* (?s q1 (Trying due)) (?s q' (Trying []))"
    using assms by (intro attempt_all_steps) (simp add: tick_def n b)
  also have "queue_step (?s q' (Trying [])) ((?s q' (Trying []))\<lparr>sys_worker := Idle\<rparr>)"
    by (rule queue_step.step_end) simp
  finally show ?thesis by simp
qed

lemma attempt_all_total:
  assumes "\<And>m. m \<in> set ms \<Longrightarrow> m_Route m \<noteq> None"
  shows "\<exists>r. attempt_all N D ms qw = Some r"
  using assms
proof (induction ms arbitrary: qw)
  case (Cons m ms)
  obtain r where "m_Route m = Some r" using Cons.prems [of m] by auto
  with Cons show ?case by (auto split: prod.splits)
qed simp

lemma tick_total:
  assumes "queue_inv cfg q"
  shows "\<exists>q' w'. tick N D (q, w) = Some (q', w')"
proof -
  obtain now w1 where n: "N w = (now, w1)" by fastforce
  obtain q1 due where b: "tick_begin now q = (q1, due)" by fastforce
  then have "queue_inv cfg q1" "due = due_msgs now q1"
    using expire_loop_inv [OF assms, of now] by (auto simp: tick_begin_def Let_def)
  then have "m_Route m \<noteq> None" if "m \<in> set due" for m
    using that by (auto simp: queue_inv_def due_msgs_def)
  then obtain r where "attempt_all N D due (q1, w1) = Some r"
    using attempt_all_total [of due N D "(q1, w1)"] by blast
  then show ?thesis by (cases r) (simp add: tick_def n b)
qed

lemma tick_inv:
  assumes "tick N D (q, w) = Some (q', w')" "queue_inv cfg q"
  shows "queue_inv cfg q'"
proof -
  let ?S = "set_mset (queued_ids (q_log q))"
  have "sys_inv cfg \<lparr>sys_q = q, sys_worker = Idle, sys_seen = ?S\<rparr>"
    using assms(2) by (simp add: sys_inv_def)
  then have "queue_limits cfg \<longrightarrow> sys_inv cfg \<lparr>sys_q = q', sys_worker = Idle, sys_seen = ?S\<rparr>"
    using retry_queue.steps_inv [OF tick_steps [OF assms(1), of ?S], of cfg] by blast
  moreover have "queue_limits cfg" using assms(2) by (auto simp: queue_inv_def queue_limits_def)
  ultimately show ?thesis by (simp add: sys_inv_def)
qed

section \<open>A tick with definite answers\<close>

text \<open>A dispatcher that settles every message it is given.\<close>

definition definite :: "'w dispatcher \<Rightarrow> bool" where
  "definite D \<longleftrightarrow> (\<forall>ctx m w. fst (fst (D ctx m w)) = ResultOK \<or> fst (fst (D ctx m w)) = ResultPermFail)"

lemma filter_mset_all: "(\<And>x. x \<in># M \<Longrightarrow> P x) \<Longrightarrow> filter_mset P M = M"
  by (induction M) simp_all

lemma remove_filter:
  assumes "queue_inv cfg q" "i < length (entries q)" "m_id (e_Msg (entries q ! i)) = k"
  shows "mset (entries (remove i q)) = filter_mset (\<lambda>e. m_id (e_Msg e) \<noteq> k) (mset (entries q))"
proof -
  have "count (held q) k \<le> 1" using assms(1) by (auto simp: queue_inv_def at_most_once_def dest: spec [of _ k])
  with remove_bag(1) [OF assms(2)] assms(3) have "k \<notin># held (remove i q)" by (simp add: not_in_iff)
  then have "filter_mset (\<lambda>e. m_id (e_Msg e) \<noteq> k) (mset (entries (remove i q))) = mset (entries (remove i q))"
    by (intro filter_mset_all) (auto simp: held_def)
  moreover have "mset (entries q) = add_mset (entries q ! i) (mset (entries (remove i q)))"
    using assms(2) by (simp add: mset_swap_remove)
  ultimately show ?thesis using assms(3) by simp
qed

lemma record_attempt_definite:
  assumes "record_attempt N res err m (q, w) = (q', w')" "queue_inv cfg q" "m \<in> e_Msg ` set (entries q)"
    "res = ResultOK \<or> res = ResultPermFail"
  shows "mset (entries q') = filter_mset (\<lambda>e. m_id (e_Msg e) \<noteq> m_id m) (mset (entries q))"
  using assms(1)
proof (cases rule: record_attempt_cases)
  case gone
  with assms(3) show ?thesis by (auto simp: held_def)
next
  case (closed i ev)
  with remove_filter [OF assms(2) closed(1,2)] show ?thesis by simp
next
  case (again i now)
  with assms(4) show ?thesis by auto
qed

lemma attempt_all_definite:
  assumes "queue_inv cfg q" "trying_inv ms q" "definite D"
  shows "\<exists>q' w'. attempt_all N D ms (q, w) = Some (q', w') \<and>
     mset (entries q') = filter_mset (\<lambda>e. m_id (e_Msg e) \<notin> m_id ` set ms) (mset (entries q))"
  using assms(1,2)
proof (induction ms arbitrary: q w)
  case (Cons m ms)
  have m: "m \<in> e_Msg ` set (entries q)" using Cons.prems(2) by (simp add: trying_inv_def)
  with Cons.prems(1) obtain r where r: "m_Route m = Some r" by (auto simp: queue_inv_def)
  obtain res err w1 where d: "D (RouteTimeout r) m w = ((res, err), w1)" by (metis prod.collapse)
  obtain q1 w2 where a: "record_attempt N res err m (q, w1) = (q1, w2)" by fastforce
  have "res = ResultOK \<or> res = ResultPermFail"
    using assms(3) d by (auto simp: definite_def dest!: spec [of _ "RouteTimeout r"] spec [of _ m] spec [of _ w])
  note e = record_attempt_definite [OF a Cons.prems(1) m this]
  from Cons.IH [OF record_attempt_inv [OF a Cons.prems(1)] record_attempt_trying [OF a Cons.prems(2), THEN conjunct1], of w2]
  obtain q' w' where "attempt_all N D ms (q1, w2) = Some (q', w')"
    "mset (entries q') = filter_mset (\<lambda>e. m_id (e_Msg e) \<notin> m_id ` set ms) (mset (entries q1))" by blast
  then show ?case using r d a e by (simp add: filter_filter_mset conj_commute)
qed simp

lemma due_ids:
  assumes "queue_inv cfg q" "e \<in> set (entries q)"
  shows "m_id (e_Msg e) \<in> m_id ` set (due_msgs now q) \<longleftrightarrow> \<not> now < NextTry e"
proof -
  have "inj_on (\<lambda>e. m_id (e_Msg e)) (set (entries q))" using held_distinct [OF assms(1)] by (simp add: distinct_map)
  then have inj: "e' = e" if "e' \<in> set (entries q)" "m_id (e_Msg e') = m_id (e_Msg e)" for e'
    using that assms(2) by (auto dest: inj_onD)
  show ?thesis
  proof
    assume "m_id (e_Msg e) \<in> m_id ` set (due_msgs now q)"
    then obtain e' where "e' \<in> set (entries q)" "\<not> now < NextTry e'" "m_id (e_Msg e') = m_id (e_Msg e)"
      by (auto simp: due_msgs_def)
    with inj [of e'] show "\<not> now < NextTry e" by simp
  qed (use assms(2) in \<open>simp add: due_msgs_def\<close>)
qed

section \<open>Drain\<close>

text \<open>The clock reaches the deadline: there is a bound on the readings before it, which no attempt
  raises.\<close>

definition clock_progress :: "'w clock \<Rightarrow> 'w dispatcher \<Rightarrow> int \<Rightarrow> ('w \<Rightarrow> nat) \<Rightarrow> bool" where
  "clock_progress N D deadline left \<longleftrightarrow>
     (\<forall>w. left (snd (N w)) \<le> left w) \<and>
     (\<forall>w. fst (N w) < deadline \<longrightarrow> left (snd (N w)) < left w) \<and>
     (\<forall>ctx m w. left (snd (D ctx m w)) \<le> left w)"

lemma record_attempt_left:
  "clock_progress N D deadline left \<Longrightarrow> left (snd (record_attempt N res err m (q, w))) \<le> left w"
  by (auto simp: record_attempt_def clock_progress_def Let_def split: option.splits Result.splits prod.splits)
    (metis snd_conv)+

lemma attempt_all_left:
  assumes "clock_progress N D deadline left"
  shows "attempt_all N D ms (q, w) = Some (q', w') \<Longrightarrow> left w' \<le> left w"
proof (induction ms arbitrary: q w)
  case (Cons m ms)
  obtain r where r: "m_Route m = Some r" using Cons.prems by (cases "m_Route m") auto
  obtain res err w1 where d: "D (RouteTimeout r) m w = ((res, err), w1)" by (metis prod.collapse)
  obtain q1 w2 where q1: "record_attempt N res err m (q, w1) = (q1, w2)" by fastforce
  have "left w1 \<le> left w"
    using assms d by (metis clock_progress_def snd_conv)
  moreover have "left w2 \<le> left w1"
    using record_attempt_left [OF assms, of res err m q w1] q1 by simp
  moreover have "left w' \<le> left w2" using Cons by (simp add: r d q1)
  ultimately show ?case by simp
qed simp

lemma tick_left:
  assumes "clock_progress N D deadline left" "tick N D (q, w) = Some (q', w')"
  shows "left w' \<le> left w"
proof -
  obtain now w1 where n: "N w = (now, w1)" by fastforce
  obtain q1 due where b: "tick_begin now q = (q1, due)" by fastforce
  have "left w' \<le> left w1"
    using attempt_all_left [OF assms(1)] assms(2) by (simp add: tick_def n b)
  also have "left w1 \<le> left w" using assms(1) n by (metis clock_progress_def snd_conv)
  finally show ?thesis .
qed

lemma drain_loop_total:
  assumes "clock_progress N D deadline left"
  shows "queue_inv cfg q \<Longrightarrow>
     \<exists>q' w'. drain_loop N D deadline (q, w) = Some (q', w') \<and> queue_inv cfg q' \<and>
       (Len q' = 0 \<or> (\<exists>v now. N v = (now, w') \<and> deadline \<le> now))"
proof (induction "left w" arbitrary: q w rule: less_induct)
  case less
  obtain now w1 where n: "N w = (now, w1)" by fastforce
  show ?case
  proof (cases "Len q = 0 \<or> deadline \<le> now")
    case True
    then have "drain_loop N D deadline (q, w) = Some (q, if Len q = 0 then w else w1)"
      by (auto simp: drain_loop.simps n)
    with True less.prems n show ?thesis by (auto split: if_splits)
  next
    case False
    have z: "queue_inv cfg (zero_next q)" using less.prems by (rule zero_next_inv)
    obtain q2 w2 where t: "tick N D (zero_next q, w1) = Some (q2, w2)"
      using tick_total [OF z, of N D w1] by blast
    have "left w1 < left w"
      using assms False n unfolding clock_progress_def by (metis fst_conv snd_conv not_le)
    then have "left w2 < left w" using tick_left [OF assms t] by simp
    moreover have "queue_inv cfg q2" by (rule tick_inv [OF t z])
    moreover have "drain_loop N D deadline (q, w) = drain_loop N D deadline (q2, w2)"
      using False by (subst drain_loop.simps) (simp add: n t)
    ultimately show ?thesis using less.hyps [of w2 q2] by simp
  qed
qed

fun ev_lost :: "qevent \<Rightarrow> nat multiset" where
  "ev_lost (EvLost m _ _) = {#m_id m#}"
| "ev_lost _ = {#}"

lemma report_lost_entries: "entries (report_lost q) = entries q"
proof -
  have "entries (fold (\<lambda>e. q_say (EvLost (e_Msg e) (routeName (e_Msg e)) (Attempts e))) es q) = entries q" for es
    by (induction es arbitrary: q) simp_all
  then show ?thesis by (simp add: report_lost_def)
qed

lemma report_lost_log:
  "q_log (report_lost q) =
     q_log q @ map (\<lambda>e. EvLost (e_Msg e) (routeName (e_Msg e)) (Attempts e)) (entries q)"
proof -
  have "q_log (fold (\<lambda>e. q_say (EvLost (e_Msg e) (routeName (e_Msg e)) (Attempts e))) es q) =
      q_log q @ map (\<lambda>e. EvLost (e_Msg e) (routeName (e_Msg e)) (Attempts e)) es" for es
    by (induction es arbitrary: q) simp_all
  then show ?thesis by (simp add: report_lost_def)
qed

lemma Drain_total:
  assumes "queue_inv cfg q" "Enabled cfg" "N w = (now, w1)" "clock_progress N D (now + limit) left"
  shows "\<exists>q' w'. Drain N D limit (q, w) = Some (q', w') \<and>
     (entries q' = [] \<or> (\<exists>v t. N v = (t, w') \<and> now + limit \<le> t)) \<and>
     (\<exists>l. q_log q' = l @ map (\<lambda>e. EvLost (e_Msg e) (routeName (e_Msg e)) (Attempts e)) (entries q') \<and>
        queued_ids l = held q' + final_ids l)"
proof -
  have "queue_inv cfg (q\<lparr>q_stop := True\<rparr>)"
    using assms(1) by (simp add: queue_inv_def held_def total_size_def)
  from drain_loop_total [OF assms(4) this, of w1] obtain q2 w2 where
    d: "drain_loop N D (now + limit) (q\<lparr>q_stop := True\<rparr>, w1) = Some (q2, w2)" "queue_inv cfg q2"
      "Len q2 = 0 \<or> (\<exists>v t. N v = (t, w2) \<and> now + limit \<le> t)" by blast
  note e = report_lost_entries [of q2]
  have "Drain N D limit (q, w) = Some (report_lost q2, w2)"
    using assms d(1) by (simp add: Drain_def queue_inv_def)
  moreover have "queued_ids (q_log q2) = held (report_lost q2) + final_ids (q_log q2)"
    using d(2) e by (simp add: queue_inv_def held_def)
  ultimately show ?thesis
    using d(3) e report_lost_log [of q2] by (auto simp: Len_def)
qed

section \<open>A sample run\<close>

definition sample_message :: Message where
  "sample_message = \<lparr>m_id = 1, m_From = ''alerts@vendor.com'', m_To = ''hook@filter.example.com'',
     m_Route = LookupRoute sample_lib sample_config ''hook@filter.example.com'',
     m_Body = ''hello'' @ CRLF, m_PeerIP = [192, 0, 2, 7], m_Received = 100\<rparr>"

definition sample_retry :: Retry where
  "sample_retry = \<lparr>Enabled = True, IntervalSec = 60, ExpireSec = 3600, MaxEntries = 500, MaxBytes = 268435456\<rparr>"

definition sample_queue :: Queue where
  "sample_queue = fst (snd (enqueue (\<lambda>_. (100, ())) sample_message (New sample_retry, ())))"

definition sample_sys :: "worker \<Rightarrow> qsys" where
  "sample_sys pc = \<lparr>sys_q = sample_queue, sys_worker = pc, sys_seen = {1}\<rparr>"

lemma sample_limits: "queue_limits sample_retry"
  by (simp add: queue_limits_def sample_retry_def)

lemma sample_route: "m_Route sample_message \<noteq> None"
  by code_simp

lemma sample_enqueue: "enqueue (\<lambda>_. (100, ())) sample_message (New sample_retry, ()) = (True, sample_queue, ())"
proof -
  have "fst (enqueue (\<lambda>_. (100, ())) sample_message (New sample_retry, ()))" by code_simp
  then show ?thesis by (simp add: sample_queue_def prod_eq_iff)
qed

lemma sample_message_simps: "m_id sample_message = 1" "length (m_Body sample_message) = 7"
  by (simp_all add: sample_message_def)

lemma sample_reach_idle: "reach (qsys_init sample_retry) queue_step (sample_sys Idle)"
proof -
  let ?s = "qsys_init sample_retry"
  have "queue_step ?s (?s\<lparr>sys_q := sample_queue, sys_seen := insert (m_id sample_message) (sys_seen ?s)\<rparr>)"
    by (rule queue_step.step_enqueue [where now = 100 and b = True])
      (use sample_enqueue sample_route in \<open>simp_all add: qsys_init_def sample_message_simps\<close>)
  also have "?s\<lparr>sys_q := sample_queue, sys_seen := insert (m_id sample_message) (sys_seen ?s)\<rparr> = sample_sys Idle"
    by (simp add: sample_sys_def qsys_init_def sample_message_simps)
  finally show ?thesis by (rule reach.reach_step [OF reach.reach_init])
qed

lemma sample_reach_trying: "reach (qsys_init sample_retry) queue_step (sample_sys (Trying [sample_message]))"
proof -
  have "tick_begin 60000000100 sample_queue = (sample_queue, [sample_message])" by code_simp
  then have "queue_step (sample_sys Idle) ((sample_sys Idle)\<lparr>sys_q := sample_queue, sys_worker := Trying [sample_message]\<rparr>)"
    by (intro queue_step.step_begin [where now = 60000000100]) (simp_all add: sample_sys_def)
  then show ?thesis
    using reach.reach_step [OF sample_reach_idle] by (simp add: sample_sys_def)
qed

section \<open>Properties\<close>

text \<open>C3: In every interleaving of sessions, worker and drain, the byte count is the total size of the
  held bodies, and neither the entry limit nor the byte limit is exceeded (byte limits below
  \<open>2 ^ 62\<close>, so that no addition wraps).\<close>

theorem queue_limits_hold:
  assumes "reach (qsys_init cfg) queue_step s" "queue_limits cfg"
  shows "q_bytes (sys_q s) = int (total_size (sys_q s)) \<and> q_bytes (sys_q s) \<le> MaxBytes cfg \<and>
     int (length (entries (sys_q s))) \<le> MaxEntries cfg"
  using retry_queue.reach_inv [OF assms(1)] assms(2) by (simp add: sys_inv_def queue_inv_def)

theorem queue_limits_hold_witness:
  "q_bytes sample_queue = 7 \<and> int (total_size sample_queue) = 7 \<and> (7::int) \<le> MaxBytes sample_retry \<and>
   int (length (entries sample_queue)) \<le> MaxEntries sample_retry"
proof -
  have "q_bytes sample_queue = 7" by code_simp
  then show ?thesis
    using queue_limits_hold [OF sample_reach_idle sample_limits] by (simp add: sample_sys_def)
qed

text \<open>C4: No message is lost silently and none is settled twice: in every interleaving, the messages
  logged as queued are exactly those still held together with those logged as delivered, failed
  permanently or expired, each of them once.\<close>

theorem queue_accounts_for_every_message:
  assumes "reach (qsys_init cfg) queue_step s" "queue_limits cfg"
  shows "queued_ids (q_log (sys_q s)) = held (sys_q s) + final_ids (q_log (sys_q s)) \<and>
     count (queued_ids (q_log (sys_q s))) i \<le> 1"
  using retry_queue.reach_inv [OF assms(1)] assms(2)
  by (simp add: sys_inv_def queue_inv_def at_most_once_def)

theorem queue_accounts_for_every_message_witness:
  "queued_ids (q_log (sys_q (sample_sys Idle))) =
     held (sys_q (sample_sys Idle)) + final_ids (q_log (sys_q (sample_sys Idle))) \<and>
   count (queued_ids (q_log (sys_q (sample_sys Idle)))) 1 \<le> 1"
  by (rule queue_accounts_for_every_message [OF sample_reach_idle sample_limits])

text \<open>C35: A message the worker is about to try is always still held, so the branch of
  \<^verbatim>\<open>tick\<close> for an entry that vanished during the attempt is never taken: only the worker
  removes entries.\<close>

theorem attempted_message_is_held:
  assumes "reach (qsys_init cfg) queue_step s" "queue_limits cfg" "sys_worker s = Trying (m # ms)"
  shows "indexOf m (sys_q s) \<noteq> None"
proof -
  have "m \<in> e_Msg ` set (entries (sys_q s))"
    using retry_queue.reach_inv [OF assms(1)] assms(2,3) by (simp add: sys_inv_def trying_inv_def)
  then show ?thesis by (auto simp: indexOf_def index_from_None)
qed

theorem attempted_message_is_held_witness: "indexOf sample_message sample_queue \<noteq> None"
  using attempted_message_is_held [OF sample_reach_trying sample_limits]
  by (simp add: sample_sys_def)

text \<open>C24: The expiry loop, which walks down the slice and swaps the last entry into each vacated slot,
  keeps exactly the entries whose age does not exceed the expiry, each as often as before.\<close>

theorem expire_loop_keeps_unexpired:
  "mset (entries (expire_loop now (length (entries q)) q)) =
     filter_mset (\<lambda>e. time_Sub now (Accepted e) \<le> Expire (q_cfg q)) (mset (entries q))"
  using expire_loop_entries [of now q] by (simp add: expired_def not_less)



text \<open>C12: A tick never panics and is one of the interleavings: from a queue that satisfies the
  invariant, whatever the clock and the dispatcher do, \<^verbatim>\<open>tick\<close> returns, and its effect is a
  run of the locked steps with the worker idle before and after.\<close>

theorem tick_refines_steps:
  assumes "queue_inv cfg q"
  shows "\<exists>q' w'. tick N D (q, w) = Some (q', w') \<and> queue_inv cfg q' \<and>
     queue_step\<^sup>*\<^sup>* \<lparr>sys_q = q, sys_worker = Idle, sys_seen = S\<rparr> \<lparr>sys_q = q', sys_worker = Idle, sys_seen = S\<rparr>"
proof -
  obtain q' w' where t: "tick N D (q, w) = Some (q', w')" using tick_total [OF assms, of N D w] by blast
  show ?thesis
    by (intro exI conjI) (rule t, rule tick_inv [OF t assms], rule tick_steps [OF t])
qed

lemma sample_queue_inv: "queue_inv sample_retry sample_queue"
  using retry_queue.reach_inv [OF sample_reach_idle] sample_limits
  by (simp add: sys_inv_def sample_sys_def)

theorem tick_refines_steps_witness:
  "\<exists>q' w'. tick (\<lambda>w. (w, w)) StubDispatch (sample_queue, 60000000100) = Some (q', w') \<and>
     queue_inv sample_retry q' \<and>
     queue_step\<^sup>*\<^sup>* (sample_sys Idle) \<lparr>sys_q = q', sys_worker = Idle, sys_seen = {1}\<rparr>"
  using tick_refines_steps [OF sample_queue_inv] by (simp add: sample_sys_def)

text \<open>C22: A tick at which every due message gets a definite answer settles all of them: it returns, and
  the queue then holds exactly the entries that have not expired and were not due, unchanged.\<close>

theorem tick_settles_due:
  assumes "queue_inv cfg q" "definite D" "N w = (now, w1)"
  shows "\<exists>q' w'. tick N D (q, w) = Some (q', w') \<and>
     mset (entries q') = filter_mset (\<lambda>e. time_Sub now (Accepted e) \<le> Expire cfg \<and> now < NextTry e) (mset (entries q))"
proof -
  let ?q = "expire_loop now (length (entries q)) q"
  have i: "queue_inv cfg ?q" by (rule expire_loop_inv [OF assms(1)])
  obtain q' w' where a: "attempt_all N D (due_msgs now ?q) (?q, w1) = Some (q', w')"
    "mset (entries q') = filter_mset (\<lambda>e. m_id (e_Msg e) \<notin> m_id ` set (due_msgs now ?q)) (mset (entries ?q))"
    using attempt_all_definite [OF i due_trying [OF i] assms(2)] by blast
  have "mset (entries q') = filter_mset (\<lambda>e. now < NextTry e) (mset (entries ?q))"
    unfolding a(2) using due_ids [OF i] by (intro filter_mset_cong) auto
  moreover have "q_cfg q = cfg" using assms(1) by (simp add: queue_inv_def)
  ultimately show ?thesis using a(1) assms(3)
    by (simp add: tick_def tick_begin_def Let_def expire_loop_entries expired_def filter_filter_mset not_less conj_commute)
qed

theorem tick_settles_due_witness:
  "\<exists>q' w'. tick (\<lambda>w. (w, w)) StubDispatch (sample_queue, 60000000100) = Some (q', w') \<and> entries q' = []"
proof -
  have "definite StubDispatch" by (simp add: definite_def StubDispatch_def)
  note t = tick_settles_due [OF sample_queue_inv this, of "\<lambda>w. (w, w)" 60000000100, OF refl]
  have "filter (\<lambda>e. time_Sub 60000000100 (Accepted e) \<le> Expire sample_retry \<and> 60000000100 < NextTry e)
      (entries sample_queue) = []" by code_simp
  with t show ?thesis by (simp flip: mset_filter)
qed



end
