(* ===== verification/Dispatch.thy ===== *)
theory Dispatch
  imports Msg
begin

text \<open>
  The dispositions, \<^verbatim>\<open>internal/dispatch\<close>: the router (\<^verbatim>\<open>dispatch.go\<close>), the command
  (\<^verbatim>\<open>command.go\<close>), the webhook (\<^verbatim>\<open>webhook.go\<close>) and the forward
  (\<^verbatim>\<open>forward.go\<close>).

  What lies outside the program is the record \<open>outside\<close>: the environment of the process, running
  a program, the HTTP client's round trip, HMAC-SHA256, dialling, and the log; every theorem holds for
  every value of it. Running a program yields the chunks it wrote to its two outputs, an error and
  whether the context ended. A dialled connection is a record with the octets the peer will send before
  the stream ends or the deadline passes, and the number of calls of the buffered writer that succeed
  (the writer's error is sticky, so all later calls fail). \<open>conn_out\<close> collects what the writer took.
\<close>

section \<open>Types\<close>

record cmdspec =
  cmd_Path :: string
  cmd_Args :: "string list"
  cmd_Stdin :: string
  cmd_Env :: "string list"

datatype runerr = ExitError int | StartError

record run_outcome =
  run_err :: "runerr option"
  run_ctx_err :: bool
  run_stdout :: "string list"
  run_stderr :: "string list"

record http_client =
  UseLastResponse :: bool

record http_request =
  req_URL :: string
  req_Header :: "(string \<times> string) list"
  req_Body :: string

record conn =
  conn_local :: string
  conn_in :: string
  conn_wok :: nat
  conn_out :: string
  conn_deadline :: "int option"
  conn_closed :: bool

record 'w outside =
  o_lib :: golib
  o_Environ :: "string list"
  o_Run :: "int \<Rightarrow> cmdspec \<Rightarrow> 'w \<Rightarrow> run_outcome \<times> 'w"
  o_log_output :: "string \<Rightarrow> string \<Rightarrow> string \<Rightarrow> 'w \<Rightarrow> 'w"
  o_NewRequest :: "string \<Rightarrow> bool"
  o_hmac_sha256 :: "string \<Rightarrow> string \<Rightarrow> string"
  o_Do :: "http_client \<Rightarrow> int \<Rightarrow> http_request \<Rightarrow> 'w \<Rightarrow> int option \<times> 'w"
  o_Dial :: "int \<Rightarrow> string \<Rightarrow> 'w \<Rightarrow> conn option \<times> 'w"
  o_hangup :: "conn \<Rightarrow> 'w \<Rightarrow> 'w"

section \<open>The command disposition\<close>

definition maxCapture :: int where
  "maxCapture = 8192"

record boundedBuffer =
  bb_buf :: string
  bb_max :: int

definition bb_Write :: "string \<Rightarrow> boundedBuffer \<Rightarrow> nat \<times> boundedBuffer" where
  "bb_Write p b =
     (let room = bb_max b - int (length (bb_buf b))
      in (length p,
          if room > 0 then
            (let room = (if int (length p) < room then int (length p) else room)
             in b\<lparr>bb_buf := bb_buf b @ take (nat room) p\<rparr>)
          else b))"

definition bb_writes :: "string list \<Rightarrow> boundedBuffer" where
  "bb_writes ps = fold (\<lambda>p b. snd (bb_Write p b)) ps \<lparr>bb_buf = [], bb_max = maxCapture\<rparr>"

definition command_env :: "'w outside \<Rightarrow> Message \<Rightarrow> string list" where
  "command_env X m = o_Environ X @
     [''SMTPFILTER_FROM='' @ m_From m, ''SMTPFILTER_TO='' @ m_To m,
      ''SMTPFILTER_PEER='' @ IPString (o_lib X) (m_PeerIP m),
      ''SMTPFILTER_SIZE='' @ Itoa (int (length (m_Body m)))]"

definition Command_Dispatch :: "'w outside \<Rightarrow> Route \<Rightarrow> 'w dispatcher" where
  "Command_Dispatch X r ctx m w =
     (let (run, w1) = o_Run X ctx \<lparr>cmd_Path = r_Path r, cmd_Args = r_Args r, cmd_Stdin = m_Body m,
            cmd_Env = command_env X m\<rparr> w;
          out = bb_buf (bb_writes (run_stdout run));
          errOut = bb_buf (bb_writes (run_stderr run));
          w2 = (if length out > 0 \<or> length errOut > 0
                then o_log_output X (r_Recipient r) out errOut w1 else w1)
      in (case run_err run of
            None \<Rightarrow> (ResultOK, None)
          | Some e \<Rightarrow>
              if run_ctx_err run then (ResultTempFail, Some ErrCommandTimeout)
              else (case e of
                      ExitError code \<Rightarrow>
                        if TempFailExitCode r \<noteq> 0 \<and> code = TempFailExitCode r
                        then (ResultTempFail, Some (ErrCommandExitTemporary code))
                        else (ResultPermFail, Some (ErrCommandExit code))
                    | StartError \<Rightarrow> (ResultTempFail, Some ErrCommandStart)),
          w2))"

section \<open>The webhook disposition\<close>

definition webhook_client :: http_client where
  "webhook_client = \<lparr>UseLastResponse = True\<rparr>"

definition hex_digit :: "nat \<Rightarrow> char" where
  "hex_digit d = (if d < 10 then char_of (48 + d) else char_of (87 + d))"

definition hex_EncodeToString :: "string \<Rightarrow> string" where
  "hex_EncodeToString s = concat (map (\<lambda>c. [hex_digit (octet c div 16), hex_digit (octet c mod 16)]) s)"

definition http_result :: "int \<Rightarrow> Result \<times> goerr option" where
  "http_result status =
     (if 200 \<le> status \<and> status < 300 then (ResultOK, None)
      else if 500 \<le> status then (ResultTempFail, Some (ErrHTTPStatus status))
      else if status = 429 then (ResultTempFail, Some (ErrHTTPStatus status))
      else (ResultPermFail, Some (ErrHTTPStatus status)))"

definition webhook_request :: "'w outside \<Rightarrow> Route \<Rightarrow> Message \<Rightarrow> http_request" where
  "webhook_request X r m =
     \<lparr>req_URL = r_URL r,
      req_Header =
        [(''Content-Type'', ''message/rfc822''),
         (''X-Smtpfilter-From'', m_From m),
         (''X-Smtpfilter-To'', m_To m),
         (''X-Smtpfilter-Peer'', IPString (o_lib X) (m_PeerIP m)),
         (''X-Smtpfilter-Signature'',
          ''sha256='' @ hex_EncodeToString (o_hmac_sha256 X (r_Secret r) (m_Body m)))],
      req_Body = m_Body m\<rparr>"

definition Webhook_Dispatch :: "'w outside \<Rightarrow> Route \<Rightarrow> 'w dispatcher" where
  "Webhook_Dispatch X r ctx m w =
     (if \<not> o_NewRequest X (r_URL r) then ((ResultPermFail, Some ErrBuildRequest), w)
      else
        (let (resp, w1) = o_Do X webhook_client ctx (webhook_request X r m) w
         in case resp of
              None \<Rightarrow> ((ResultTempFail, Some ErrPost), w1)
            | Some status \<Rightarrow> (http_result status, w1)))"

section \<open>The forward disposition\<close>

text \<open>\<^verbatim>\<open>net.JoinHostPort\<close>: a host with a colon is put in brackets.\<close>

definition JoinHostPort :: "string \<Rightarrow> string \<Rightarrow> string" where
  "JoinHostPort host port =
     (if CHR '':'' \<in> set host then ''['' @ host @ '']:'' @ port else host @ '':'' @ port)"

text \<open>One call of the buffered writer: \<^verbatim>\<open>WriteString\<close>, or \<^verbatim>\<open>Flush\<close> with nothing new.\<close>

definition bw_Write :: "string \<Rightarrow> conn \<Rightarrow> bool \<times> conn" where
  "bw_Write s c =
     (case conn_wok c of
        0 \<Rightarrow> (False, c)
      | Suc n \<Rightarrow> (True, c\<lparr>conn_wok := n, conn_out := conn_out c @ s\<rparr>))"

definition bw_Flush :: "conn \<Rightarrow> bool \<times> conn" where
  "bw_Flush c = bw_Write [] c"

lemma ReadString_length:
  assumes "ReadString s = (l, True, r)" shows "length r < length s"
  using ReadString_split [OF assms] ReadString_found [OF assms] by auto

function expect_in :: "int \<Rightarrow> string \<Rightarrow> (Result \<times> goerr option) \<times> string" where
  "expect_in want s =
     (case ReadString s of
        (l, found, r) \<Rightarrow>
          if \<not> found then ((ResultTempFail, Some ErrTransport), r)
          else
            (let line = TrimRight l CRLF
             in if length line < 3 then ((ResultTempFail, Some (ErrShortReply line)), r)
                else (case Atoi (take 3 line) of
                        None \<Rightarrow> ((ResultTempFail, Some (ErrBadReply line)), r)
                      | Some code \<Rightarrow>
                          if length line > 3 \<and> line ! 3 = CHR ''-'' then expect_in want r
                          else if code = want then ((ResultOK, None), r)
                          else if code \<ge> 500 then ((ResultPermFail, Some (ErrTargetReplied line)), r)
                          else ((ResultTempFail, Some (ErrTargetReplied line)), r))))"
  by pat_completeness auto
termination
  by (relation "measure (\<lambda>(want, s). length s)") (auto dest!: ReadString_length [OF sym])

declare expect_in.simps [simp del]

definition expect :: "int \<Rightarrow> conn \<Rightarrow> (Result \<times> goerr option) \<times> conn" where
  "expect want c = (case expect_in want (conn_in c) of (re, r) \<Rightarrow> (re, c\<lparr>conn_in := r\<rparr>))"

definition smtp_cmd :: "string \<Rightarrow> int \<Rightarrow> conn \<Rightarrow> (Result \<times> goerr option) \<times> conn" where
  "smtp_cmd line want c =
     (case bw_Write (line @ CRLF) c of
        (False, c1) \<Rightarrow> ((ResultTempFail, Some ErrTransport), c1)
      | (True, c1) \<Rightarrow>
          (case bw_Flush c1 of
             (False, c2) \<Rightarrow> ((ResultTempFail, Some ErrTransport), c2)
           | (True, c2) \<Rightarrow> expect want c2))"

fun write_lines :: "string list \<Rightarrow> conn \<Rightarrow> bool \<times> conn" where
  "write_lines [] c = (True, c)"
| "write_lines (line # ls) c =
     (case (if HasPrefix line ''.'' then bw_Write ''.'' c else (True, c)) of
        (False, c1) \<Rightarrow> (False, c1)
      | (True, c1) \<Rightarrow>
          (case bw_Write (line @ CRLF) c1 of
             (False, c2) \<Rightarrow> (False, c2)
           | (True, c2) \<Rightarrow> write_lines ls c2))"

definition writeBody :: "string \<Rightarrow> conn \<Rightarrow> bool \<times> conn" where
  "writeBody body c =
     (case write_lines (SplitCRLF body) c of
        (False, c1) \<Rightarrow> (False, c1)
      | (True, c1) \<Rightarrow>
          (case bw_Write (''.'' @ CRLF) c1 of
             (False, c2) \<Rightarrow> (False, c2)
           | (True, c2) \<Rightarrow> bw_Flush c2))"

definition localName :: "golib \<Rightarrow> conn \<Rightarrow> string" where
  "localName G c =
     (case SplitHostPort G (conn_local c) of
        None \<Rightarrow> ''localhost''
      | Some (host, _) \<Rightarrow> if host = '''' then ''localhost'' else ''['' @ host @ '']'')"

text \<open>Go on only while no error has been returned.\<close>

definition unless_err ::
    "(Result \<times> goerr option) \<times> conn \<Rightarrow> (conn \<Rightarrow> (Result \<times> goerr option) \<times> conn) \<Rightarrow>
     (Result \<times> goerr option) \<times> conn" where
  "unless_err rc k = (case rc of ((res, Some e), c) \<Rightarrow> ((res, Some e), c) | ((res, None), c) \<Rightarrow> k c)"

definition hello :: "golib \<Rightarrow> conn \<Rightarrow> (Result \<times> goerr option) \<times> conn" where
  "hello G c =
     (case smtp_cmd (''EHLO '' @ localName G c) 250 c of
        ((res, None), c1) \<Rightarrow> ((res, None), c1)
      | ((_, Some _), c1) \<Rightarrow> smtp_cmd (''HELO '' @ localName G c1) 250 c1)"

definition dialogue :: "golib \<Rightarrow> Message \<Rightarrow> conn \<Rightarrow> (Result \<times> goerr option) \<times> conn" where
  "dialogue G m c =
     unless_err (expect 220 c) (\<lambda>c. unless_err (hello G c) (\<lambda>c.
     unless_err (smtp_cmd (''MAIL FROM:<'' @ m_From m @ ''>'') 250 c) (\<lambda>c.
     unless_err (smtp_cmd (''RCPT TO:<'' @ m_To m @ ''>'') 250 c) (\<lambda>c.
     unless_err (smtp_cmd ''DATA'' 354 c) (\<lambda>c.
       (case writeBody (m_Body m) c of
          (False, c) \<Rightarrow> ((ResultTempFail, Some ErrWriteBody), c)
        | (True, c) \<Rightarrow>
            unless_err (expect 250 c) (\<lambda>c. ((ResultOK, None), snd (smtp_cmd ''QUIT'' 221 c)))))))))"

definition Forward_Dispatch :: "'w outside \<Rightarrow> Route \<Rightarrow> 'w dispatcher" where
  "Forward_Dispatch X r ctx m w =
     (let addr = JoinHostPort (r_Host r) (Itoa (r_Port r)); (dialled, w1) = o_Dial X ctx addr w
      in case dialled of
           None \<Rightarrow> ((ResultTempFail, Some (ErrDial addr)), w1)
         | Some c \<Rightarrow>
             (case dialogue (o_lib X) m (c\<lparr>conn_deadline := Some ctx\<rparr>) of
                (re, c1) \<Rightarrow> (re, o_hangup X (c1\<lparr>conn_closed := True\<rparr>) w1)))"

section \<open>The router\<close>

definition Router_Dispatch :: "'w outside \<Rightarrow> 'w dispatcher" where
  "Router_Dispatch X ctx m w =
     (case m_Route m of
        None \<Rightarrow> ((ResultPermFail, Some ErrNoRoute), w)
      | Some r \<Rightarrow>
          if r_Type r = RouteCommand then Command_Dispatch X r ctx m w
          else if r_Type r = RouteWebhook then Webhook_Dispatch X r ctx m w
          else if r_Type r = RouteForward then Forward_Dispatch X r ctx m w
          else ((ResultPermFail, Some (ErrUnknownRouteType (r_Type r))), w))"

section \<open>Lemmas\<close>

lemma bb_Write_take:
  assumes "0 \<le> bb_max b" "int (length (bb_buf b)) \<le> bb_max b"
  shows "bb_Write p b = (length p, b\<lparr>bb_buf := take (nat (bb_max b)) (bb_buf b @ p)\<rparr>)"
proof -
  have "nat (if int (length p) < n then int (length p) else n) = min (length p) (nat n)" for n
    by auto
  moreover have "nat (bb_max b - int (length (bb_buf b))) = nat (bb_max b) - length (bb_buf b)"
    by simp
  moreover have "length (bb_buf b) \<le> nat (bb_max b)" using assms by simp
  ultimately show ?thesis
    by (auto simp: bb_Write_def Let_def min_def)
qed

lemma fold_bb_Write:
  "0 \<le> bb_max b \<Longrightarrow> int (length (bb_buf b)) \<le> bb_max b \<Longrightarrow>
     fold (\<lambda>p b. snd (bb_Write p b)) ps b = b\<lparr>bb_buf := take (nat (bb_max b)) (bb_buf b @ concat ps)\<rparr>"
proof (induction ps arbitrary: b)
  case (Cons p ps)
  let ?b = "b\<lparr>bb_buf := take (nat (bb_max b)) (bb_buf b @ p)\<rparr>"
  have "fold (\<lambda>p b. snd (bb_Write p b)) ps ?b =
      ?b\<lparr>bb_buf := take (nat (bb_max b)) (take (nat (bb_max b)) (bb_buf b @ p) @ concat ps)\<rparr>"
    using Cons.prems by (subst Cons.IH) simp_all
  also have "take (nat (bb_max b)) (take (nat (bb_max b)) (bb_buf b @ p) @ concat ps) =
      take (nat (bb_max b)) (bb_buf b @ p @ concat ps)"
    by (auto simp: take_add [symmetric] min_def)
  finally show ?case using Cons.prems by (simp add: bb_Write_take)
qed simp

text \<open>The outcomes of the client: no error exactly with the result OK, and no result Queued.\<close>

definition settled :: "Result \<times> goerr option \<Rightarrow> bool" where
  "settled re \<longleftrightarrow> (snd re = None \<longleftrightarrow> fst re = ResultOK) \<and> fst re \<noteq> ResultQueued"

text \<open>The reasons for a permanent failure.\<close>

fun permanent :: "goerr option \<Rightarrow> bool" where
  "permanent (Some ErrNoRoute) = True"
| "permanent (Some (ErrUnknownRouteType _)) = True"
| "permanent (Some (ErrCommandExit _)) = True"
| "permanent (Some ErrBuildRequest) = True"
| "permanent (Some (ErrHTTPStatus status)) = (status < 200 \<or> 300 \<le> status \<and> status < 500 \<and> status \<noteq> 429)"
| "permanent (Some (ErrTargetReplied line)) = (\<exists>code. Atoi (take 3 line) = Some code \<and> 500 \<le> code)"
| "permanent _ = False"

definition proper :: "Result \<times> goerr option \<Rightarrow> bool" where
  "proper re \<longleftrightarrow> settled re \<and> (fst re = ResultPermFail \<longleftrightarrow> permanent (snd re))"

lemma proper_simps [simp]:
  "proper (ResultOK, None)" "proper (ResultTempFail, Some ErrTransport)"
  "proper (ResultTempFail, Some (ErrShortReply l))" "proper (ResultTempFail, Some (ErrBadReply l))"
  "proper (ResultTempFail, Some ErrWriteBody)" "proper (ResultTempFail, Some (ErrDial a))"
  by (simp_all add: proper_def settled_def)

lemma expect_in_proper: "proper (fst (expect_in want s))"
proof (induction want s rule: expect_in.induct)
  case (1 want s)
  obtain l found r where rs: "ReadString s = (l, found, r)" by (metis prod_cases3)
  show ?case
    using "1" [OF rs [symmetric] refl]
    by (auto simp: expect_in.simps [of want s] rs Let_def proper_def settled_def split: option.split)
qed

lemma expect_proper: "proper (fst (expect want c))"
  using expect_in_proper [of want "conn_in c"] by (auto simp: expect_def split: prod.split)

lemma smtp_cmd_proper: "proper (fst (smtp_cmd line want c))"
  by (auto simp: smtp_cmd_def expect_proper split: prod.split bool.split)

lemma unless_err_proper:
  "proper (fst rc) \<Longrightarrow> (\<And>c. proper (fst (k c))) \<Longrightarrow> proper (fst (unless_err rc k))"
  by (auto simp: unless_err_def split: prod.split option.split)

lemma hello_proper: "proper (fst (hello G c))"
  by (auto simp: hello_def smtp_cmd_proper split: prod.split option.split) (metis fst_conv smtp_cmd_proper)

lemma dialogue_proper: "proper (fst (dialogue G m c))"
  unfolding dialogue_def
  by (intro unless_err_proper expect_proper hello_proper smtp_cmd_proper)
    (auto intro!: unless_err_proper expect_proper split: prod.split bool.split)

lemma Router_proper: "proper (fst (Router_Dispatch X ctx m w))"
proof -
  have "proper (fst (Command_Dispatch X r ctx m w))" for r
    by (auto simp: Command_Dispatch_def Let_def proper_def settled_def
        split: prod.split option.split runerr.split)
  moreover have "proper (fst (Webhook_Dispatch X r ctx m w))" for r
    by (auto simp: Webhook_Dispatch_def http_result_def Let_def proper_def settled_def
        split: prod.split option.split)
  moreover have "proper (fst (Forward_Dispatch X r ctx m w))" for r
    by (auto simp: Forward_Dispatch_def Let_def split: prod.split option.split)
      (metis dialogue_proper fst_conv)+
  ultimately show ?thesis
    by (auto simp: Router_Dispatch_def proper_def settled_def split: option.split)
qed
subsection \<open>What the client writes\<close>

definition stuff :: "string \<Rightarrow> string" where
  "stuff line = (if HasPrefix line ''.'' then ''.'' @ line else line) @ CRLF"

definition data_wire :: "string \<Rightarrow> string" where
  "data_wire body = concat (map stuff (SplitCRLF body)) @ ''.'' @ CRLF"

lemma bw_Write_cases:
  assumes "bw_Write s c = (ok, c')"
  obtains "\<not> ok" "c' = c" "conn_wok c = 0" "conn_local c' = conn_local c"
  | "ok" "conn_out c' = conn_out c @ s" "conn_local c' = conn_local c" "conn_in c' = conn_in c"
  using assms by (auto simp: bw_Write_def split: nat.splits)

lemma write_lines_out:
  "write_lines ls c = (True, c') \<Longrightarrow>
     conn_out c' = conn_out c @ concat (map stuff ls) \<and> conn_local c' = conn_local c"
proof (induction ls arbitrary: c)
  case (Cons l ls)
  obtain c1 where c1: "(if HasPrefix l ''.'' then bw_Write ''.'' c else (True, c)) = (True, c1)"
    using Cons.prems by (auto split: prod.splits bool.splits)
  obtain c2 where c2: "bw_Write (l @ CRLF) c1 = (True, c2)" "write_lines ls c2 = (True, c')"
    using Cons.prems c1 by (auto split: prod.splits bool.splits)
  have "conn_out c1 = conn_out c @ (if HasPrefix l ''.'' then ''.'' else '''')" "conn_local c1 = conn_local c"
    using c1 by (auto elim: bw_Write_cases split: if_splits)
  moreover have "conn_out c2 = conn_out c1 @ l @ CRLF" "conn_local c2 = conn_local c1"
    using c2(1) by (auto elim: bw_Write_cases)
  ultimately show ?case using Cons.IH [OF c2(2)] by (simp add: stuff_def)
qed simp

lemma bw_Flush_out: "bw_Flush c = (True, c') \<Longrightarrow> conn_out c' = conn_out c \<and> conn_local c' = conn_local c"
  unfolding bw_Flush_def by (auto elim: bw_Write_cases)

lemma writeBody_out:
  assumes "writeBody body c = (True, c')"
  shows "conn_out c' = conn_out c @ data_wire body \<and> conn_local c' = conn_local c"
proof -
  obtain c1 c2 where "write_lines (SplitCRLF body) c = (True, c1)" "bw_Write (''.'' @ CRLF) c1 = (True, c2)"
    "bw_Flush c2 = (True, c')"
    using assms by (auto simp: writeBody_def split: prod.splits bool.splits)
  moreover from this(2) have "conn_out c2 = conn_out c1 @ ''.'' @ CRLF" "conn_local c2 = conn_local c1"
    by (auto elim: bw_Write_cases)
  ultimately show ?thesis by (auto dest!: write_lines_out bw_Flush_out simp: data_wire_def)
qed

lemma expect_frame [frame]:
  "expect want c = (re, c') \<Longrightarrow> conn_out c' = conn_out c"
  "expect want c = (re, c') \<Longrightarrow> conn_local c' = conn_local c"
  "expect want c = (re, c') \<Longrightarrow> conn_wok c' = conn_wok c"
  by (auto simp: expect_def split: prod.splits)

text \<open>A command that returns no error was written; one that did not read a reply left the writer
  broken.\<close>

lemma smtp_cmd_cases:
  assumes "smtp_cmd line want c = (re, c')"
  obtains (broken) "conn_wok c' = 0" "re = (ResultTempFail, Some ErrTransport)" "conn_local c' = conn_local c"
      "conn_out c' = conn_out c \<or> conn_out c' = conn_out c @ line @ CRLF"
  | (sent) "conn_out c' = conn_out c @ line @ CRLF" "conn_local c' = conn_local c"
proof -
  obtain ok c1 where b: "bw_Write (line @ CRLF) c = (ok, c1)" by fastforce
  obtain ok2 c2 where f: "bw_Flush c1 = (ok2, c2)" by fastforce
  show ?thesis
  proof (cases "ok \<and> ok2")
    case True
    then have e: "expect want c2 = (re, c')" using assms b f by (simp add: smtp_cmd_def)
    have "conn_out c2 = conn_out c @ line @ CRLF" "conn_local c2 = conn_local c"
      using b f True unfolding bw_Flush_def by (auto elim!: bw_Write_cases)
    with expect_frame [OF e] show ?thesis by (intro sent) simp_all
  next
    case False
    then have "re = (ResultTempFail, Some ErrTransport)" using assms b f
      by (auto simp: smtp_cmd_def split: bool.splits)
    moreover have "conn_wok c' = 0" "conn_local c' = conn_local c" "conn_out c' = conn_out c \<or> conn_out c' = conn_out c @ line @ CRLF"
      using assms b f False unfolding bw_Flush_def
      by (auto simp: smtp_cmd_def bw_Flush_def split: bool.splits elim!: bw_Write_cases)
    ultimately show ?thesis using broken by blast
  qed
qed

lemma smtp_cmd_ok:
  assumes "smtp_cmd line want c = ((res, None), c')"
  shows "conn_out c' = conn_out c @ line @ CRLF" "conn_local c' = conn_local c"
  using assms by (cases rule: smtp_cmd_cases; simp)+

lemma smtp_cmd_broken: "conn_wok c = 0 \<Longrightarrow> smtp_cmd line want c = ((ResultTempFail, Some ErrTransport), c)"
  by (simp add: smtp_cmd_def bw_Write_def)

text \<open>The greeting on the wire: EHLO, followed by HELO when EHLO was refused.\<close>

definition hello_wire :: "string \<Rightarrow> string \<Rightarrow> bool" where
  "hello_wire name h \<longleftrightarrow>
     h = ''EHLO '' @ name @ CRLF \<or> h = ''EHLO '' @ name @ CRLF @ ''HELO '' @ name @ CRLF"

lemma hello_ok:
  assumes "hello G c = ((res, None), c')"
  shows "conn_local c' = conn_local c \<and> (\<exists>h. hello_wire (localName G c) h \<and> conn_out c' = conn_out c @ h)"
proof -
  obtain re c1 where e: "smtp_cmd (''EHLO '' @ localName G c) 250 c = (re, c1)" by fastforce
  then show ?thesis
  proof (cases rule: smtp_cmd_cases)
    case broken
    then have "hello G c = ((ResultTempFail, Some ErrTransport), c1)"
      using e smtp_cmd_broken [of c1] by (simp add: hello_def)
    with assms show ?thesis by simp
  next
    case sent
    then have n: "localName G c1 = localName G c" by (simp add: localName_def)
    show ?thesis
    proof (cases "snd re")
      case None
      with assms e sent have "c' = c1" by (cases re) (simp add: hello_def)
      with sent show ?thesis by (auto simp: hello_wire_def)
    next
      case (Some x)
      with assms e have "smtp_cmd (''HELO '' @ localName G c) 250 c1 = ((res, None), c')"
        using n by (cases re) (simp add: hello_def)
      from smtp_cmd_ok [OF this] sent show ?thesis by (auto simp: hello_wire_def)
    qed
  qed
qed

lemma unless_err_ok:
  "unless_err rc k = ((res, None), c') \<Longrightarrow> \<exists>r c1. rc = ((r, None), c1) \<and> k c1 = ((res, None), c')"
  by (auto simp: unless_err_def split: prod.splits option.splits)
text \<open>What a part of the dialogue has written when it returns no error; parts compose.\<close>

definition emits ::
    "string \<Rightarrow> (conn \<Rightarrow> (Result \<times> goerr option) \<times> conn) \<Rightarrow> (string \<Rightarrow> bool) \<Rightarrow> bool" where
  "emits a k P \<longleftrightarrow>
     (\<forall>c r c'. conn_local c = a \<longrightarrow> k c = ((r, None), c') \<longrightarrow>
        conn_local c' = a \<and> (\<exists>s. P s \<and> conn_out c' = conn_out c @ s))"

lemma emits_then:
  assumes "emits a f P" "emits a k Q"
  shows "emits a (\<lambda>c. unless_err (f c) k) (\<lambda>s. \<exists>x y. P x \<and> Q y \<and> s = x @ y)"
  unfolding emits_def
proof (intro allI impI)
  fix c r c'
  assume l: "conn_local c = a" and u: "unless_err (f c) k = ((r, None), c')"
  obtain r1 c1 where 1: "f c = ((r1, None), c1)" "k c1 = ((r, None), c')" using unless_err_ok [OF u] by blast
  obtain x where x: "P x" "conn_out c1 = conn_out c @ x" "conn_local c1 = a"
    using assms(1) l 1(1) unfolding emits_def by blast
  then obtain y where y: "Q y" "conn_out c' = conn_out c1 @ y" "conn_local c' = a"
    using assms(2) 1(2) unfolding emits_def by blast
  with x show "conn_local c' = a \<and> (\<exists>s. (\<exists>x y. P x \<and> Q y \<and> s = x @ y) \<and> conn_out c' = conn_out c @ s)"
    by auto
qed

lemma emits_cmd: "emits a (smtp_cmd line want) (\<lambda>s. s = line @ CRLF)"
  by (auto simp: emits_def dest: smtp_cmd_ok)

lemma emits_expect: "emits a (expect want) (\<lambda>s. s = '''')"
  by (auto simp: emits_def dest: expect_frame)

lemma emits_hello: "emits a (hello G) (\<lambda>s. \<exists>c. conn_local c = a \<and> hello_wire (localName G c) s)"
  unfolding emits_def by (blast dest: hello_ok)

lemma emits_quit:
  "emits a (\<lambda>c. ((ResultOK, None), snd (smtp_cmd ''QUIT'' 221 c))) (\<lambda>s. s = '''' \<or> s = ''QUIT'' @ CRLF)"
  unfolding emits_def
proof (intro allI impI)
  fix c r c'
  assume "conn_local c = a" "((ResultOK, None), snd (smtp_cmd ''QUIT'' 221 c)) = ((r, None), c')"
  then obtain re where "smtp_cmd ''QUIT'' 221 c = (re, c')" "conn_local c = a"
    by (metis prod.collapse snd_conv)
  then show "conn_local c' = a \<and> (\<exists>s. (s = '''' \<or> s = ''QUIT'' @ CRLF) \<and> conn_out c' = conn_out c @ s)"
    by (cases rule: smtp_cmd_cases) auto
qed

lemma emits_body:
  assumes "emits a k Q"
  shows "emits a (\<lambda>c. case writeBody body c of
       (False, c) \<Rightarrow> ((ResultTempFail, Some ErrWriteBody), c)
     | (True, c) \<Rightarrow> k c) (\<lambda>s. \<exists>y. Q y \<and> s = data_wire body @ y)"
  unfolding emits_def
proof (intro allI impI)
  fix c r c'
  assume l: "conn_local c = a" and k: "(case writeBody body c of
       (False, c) \<Rightarrow> ((ResultTempFail, Some ErrWriteBody), c) | (True, c) \<Rightarrow> k c) = ((r, None), c')"
  then obtain c1 where 1: "writeBody body c = (True, c1)" "k c1 = ((r, None), c')"
    by (auto split: prod.splits bool.splits)
  from writeBody_out [OF 1(1)] l have w: "conn_out c1 = conn_out c @ data_wire body" "conn_local c1 = a"
    by simp_all
  with assms 1(2) obtain y where "Q y" "conn_out c' = conn_out c1 @ y" "conn_local c' = a"
    unfolding emits_def by blast
  with w show "conn_local c' = a \<and> (\<exists>s. (\<exists>y. Q y \<and> s = data_wire body @ y) \<and> conn_out c' = conn_out c @ s)"
    by auto
qed

lemma dialogue_ok:
  assumes "dialogue G m c = ((res, None), c')"
  shows "\<exists>h q. hello_wire (localName G c) h \<and> (q = '''' \<or> q = ''QUIT'' @ CRLF) \<and>
     conn_out c' = conn_out c @ h @ (''MAIL FROM:<'' @ m_From m @ ''>'' @ CRLF) @
       (''RCPT TO:<'' @ m_To m @ ''>'' @ CRLF) @ (''DATA'' @ CRLF) @ data_wire (m_Body m) @ q"
proof -
  note e = emits_then [OF emits_expect emits_then [OF emits_hello emits_then [OF emits_cmd
        emits_then [OF emits_cmd emits_then [OF emits_cmd emits_body
        [OF emits_then [OF emits_expect emits_quit]]]]]]]
  obtain s where "conn_out c' = conn_out c @ s" and s: "\<exists>c1 h q. conn_local c1 = conn_local c \<and>
      hello_wire (localName G c1) h \<and> (q = '''' \<or> q = ''QUIT'' @ CRLF) \<and>
      s = h @ (''MAIL FROM:<'' @ m_From m @ ''>'' @ CRLF) @ (''RCPT TO:<'' @ m_To m @ ''>'' @ CRLF) @
        (''DATA'' @ CRLF) @ data_wire (m_Body m) @ q"
    using e [of "conn_local c" 220 G "''MAIL FROM:<'' @ m_From m @ ''>''" 250
        "''RCPT TO:<'' @ m_To m @ ''>''" 250 "''DATA''" 354 250 "m_Body m",
        folded dialogue_def, unfolded emits_def, rule_format, OF refl assms]
    by (elim conjE exE) (simp only: append.simps append_assoc, blast)
  moreover have "localName G c1 = localName G c" if "conn_local c1 = conn_local c" for c1
    using that by (simp add: localName_def)
  ultimately show ?thesis by metis
qed

subsection \<open>What the client reads\<close>

lemma TrimRight_keeps: "c \<notin> set cs \<Longrightarrow> TrimRight (xs @ c # ys) cs = xs @ c # TrimRight ys cs"
  by (simp add: TrimRight_def dropWhile_append3)

lemma dec_nat_three:
  assumes "100 \<le> n" "n < 1000" shows "length (dec_nat n) = 3"
proof -
  have "10 \<le> n div 10" "n div 10 div 10 < 10" using assms by auto
  with assms show ?thesis
    by (simp add: dec_nat.simps [of n] dec_nat.simps [of "n div 10"] dec_nat.simps [of "n div 10 div 10"]
        del: div_mult2_eq)
qed

lemma LF_not_digit: "LF \<notin> set (dec_nat n)" "CR \<notin> set (dec_nat n)"
  using dec_nat_digits [of n] by (auto simp: list_all_iff is_digit_def octet_def)

lemma expect_in_line:
  assumes "100 \<le> n" "n < 1000" "LF \<notin> set text" "sep \<noteq> CR" "sep \<noteq> LF"
  shows "expect_in want (dec_nat n @ sep # text @ CRLF @ r) =
     (if sep = CHR ''-'' then expect_in want r
      else ((if int n = want then (ResultOK, None)
             else (if 500 \<le> n then ResultPermFail else ResultTempFail,
                   Some (ErrTargetReplied (dec_nat n @ sep # TrimRight text CRLF)))), r))"
proof -
  have rs: "ReadString (dec_nat n @ sep # text @ CRLF @ r) = (dec_nat n @ sep # text @ CRLF, True, r)"
    using ReadString_line [of "dec_nat n @ sep # text @ [CR]" r] assms LF_not_digit(1) [of n] by simp
  have tr: "TrimRight (dec_nat n @ sep # text @ CRLF) CRLF = dec_nat n @ sep # TrimRight text CRLF"
    using assms by (simp add: TrimRight_keeps) (simp add: TrimRight_def)
  have "Atoi (dec_nat n) = Some (int n)"
    using Atoi_digits [OF ParseDigits_dec_nat, of n] assms by (simp add: in_int64_def)
  with rs tr dec_nat_three [OF assms(1,2)] show ?thesis
    by (subst expect_in.simps) (simp add: nth_append)
qed

section \<open>Properties\<close>

text \<open>C31: The captured output of a child program is the first 8192 octets of what it wrote, however it
  splits its writes, and every write reports the full length, so the child never sees a short write.\<close>

theorem capture_is_bounded_prefix:
  "bb_buf (bb_writes ps) = take 8192 (concat ps) \<and>
   fst (bb_Write p b) = length p"
  using fold_bb_Write [of "\<lparr>bb_buf = [], bb_max = maxCapture\<rparr>" ps]
  by (simp add: bb_writes_def maxCapture_def bb_Write_def Let_def)


definition sample_outside :: "unit outside" where
  "sample_outside =
     \<lparr>o_lib = sample_lib, o_Environ = [''PATH=/bin''],
      o_Run = (\<lambda>_ _ w. (\<lparr>run_err = Some (ExitError 1), run_ctx_err = False, run_stdout = [], run_stderr = [''bad'']\<rparr>, w)),
      o_log_output = (\<lambda>_ _ _ w. w), o_NewRequest = (\<lambda>_. True), o_hmac_sha256 = (\<lambda>k b. k @ b),
      o_Do = (\<lambda>_ _ _ w. (Some 302, w)),
      o_Dial = (\<lambda>_ _ w. (Some \<lparr>conn_local = ''10.1.2.3:40000'', conn_in = concat (map (\<lambda>l. l @ CRLF)
            [''220 hi'', ''502 no'', ''250-mx'', ''250 ok'', ''250 ok'', ''250 ok'', ''354 go'', ''250 stored'']),
          conn_wok = 100, conn_out = '''', conn_deadline = None, conn_closed = False\<rparr>, w)),
      o_hangup = (\<lambda>_ w. w)\<rparr>"

definition sample_mail :: "string \<Rightarrow> Message" where
  "sample_mail rcpt = \<lparr>m_id = 1, m_From = ''a@vendor.com'', m_To = rcpt,
     m_Route = LookupRoute sample_lib sample_config rcpt, m_Body = ''.x'' @ CRLF, m_PeerIP = [], m_Received = 0\<rparr>"


text \<open>C13: When the forward dialogue returns without an error, the octets written are exactly one
  complete SMTP transaction with the message's envelope and its dot-stuffed body, after EHLO or, if
  the target refused it, EHLO and HELO.\<close>

theorem forward_transmits_exactly:
  assumes "dialogue G m c = ((res, None), c')"
  shows "\<exists>h q. hello_wire (localName G c) h \<and> (q = '''' \<or> q = ''QUIT'' @ CRLF) \<and>
     conn_out c' = conn_out c @ h @ ''MAIL FROM:<'' @ m_From m @ ''>'' @ CRLF @
       ''RCPT TO:<'' @ m_To m @ ''>'' @ CRLF @ ''DATA'' @ CRLF @ data_wire (m_Body m) @ q"
  using dialogue_ok [OF assms] by simp

definition sample_conn :: conn where
  "sample_conn = the (fst (o_Dial sample_outside 0 '''' ()))"

lemma sample_dialogue:
  "fst (dialogue sample_lib (sample_mail ''fwd@filter.example.com'') sample_conn) = (ResultOK, None)"
  by code_simp

theorem forward_transmits_exactly_witness:
  "fst (dialogue sample_lib (sample_mail ''fwd@filter.example.com'') sample_conn) = (ResultOK, None) \<and>
   (\<exists>h q. hello_wire (localName sample_lib sample_conn) h \<and> (q = '''' \<or> q = ''QUIT'' @ CRLF) \<and>
     conn_out (snd (dialogue sample_lib (sample_mail ''fwd@filter.example.com'') sample_conn)) =
       conn_out sample_conn @ h @ ''MAIL FROM:<'' @ m_From (sample_mail ''fwd@filter.example.com'') @ ''>'' @ CRLF @
       ''RCPT TO:<'' @ m_To (sample_mail ''fwd@filter.example.com'') @ ''>'' @ CRLF @ ''DATA'' @ CRLF @
       data_wire (m_Body (sample_mail ''fwd@filter.example.com'')) @ q)"
proof -
  have "dialogue sample_lib (sample_mail ''fwd@filter.example.com'') sample_conn =
      ((ResultOK, None), snd (dialogue sample_lib (sample_mail ''fwd@filter.example.com'') sample_conn))"
    using sample_dialogue by (simp add: prod_eq_iff)
  from forward_transmits_exactly [OF this] sample_dialogue show ?thesis by (intro conjI)
qed

end
