(* ===== verification/Resolver.thy ===== *)
theory Resolver
  imports Policy
begin

text \<open>
  The production resolver, \<^verbatim>\<open>internal/policy/resolver.go\<close>: the deadline around every query, the
  translation of the SPF library's result, and the goroutine that \<^verbatim>\<open>CheckSPF\<close> starts.

  The system resolver and the SPF library are parameters (\<open>upstream\<close>). The goroutine, the
  channel and the context of one \<^verbatim>\<open>CheckSPF\<close> call are a step relation over any channel
  capacity, with Go's rules for sending: into free buffer space, or to a receiver that waits. Shown: with
  the capacity of the source the goroutine can always finish, so none leaks; without it the
  goroutine is stuck after a time-out; the caller is released at the deadline either way.
\<close>

section \<open>Definitions\<close>

definition convertSPF :: "golib \<Rightarrow> string \<Rightarrow> SPFResult" where
  "convertSPF G r =
     (let s = ToUpper G (TrimSpace r)
      in if s = ''PASS'' then SPFPass
         else if s = ''FAIL'' then SPFFail
         else if s = ''SOFTFAIL'' then SPFSoftFail
         else if s = ''NEUTRAL'' then SPFNeutral
         else if s = ''NONE'' then SPFNone
         else if s = ''TEMPERROR'' then SPFTempError
         else if s = ''PERMERROR'' then SPFPermError
         else SPFPermError)"

text \<open>The system resolver and the SPF library under a time-out; \<open>up_CheckHost\<close> returns
  \<^const>\<open>None\<close> when the deadline is reached first.\<close>

record 'w upstream =
  up_LookupAddr :: "int \<Rightarrow> string \<Rightarrow> 'w \<Rightarrow> string list option \<times> 'w"
  up_LookupIPAddr :: "int \<Rightarrow> string \<Rightarrow> 'w \<Rightarrow> 8 word list list option \<times> 'w"
  up_CheckHost :: "int \<Rightarrow> 8 word list \<Rightarrow> string \<Rightarrow> string \<Rightarrow> 'w \<Rightarrow> string option \<times> 'w"

record NetResolver =
  n_timeout :: int

text \<open>The second component is the package variable \<^verbatim>\<open>spf.DNSServer\<close>.\<close>

definition NewNetResolver :: "int \<Rightarrow> string \<Rightarrow> string \<Rightarrow> NetResolver \<times> string" where
  "NewNetResolver timeout server DNSServer =
     (\<lparr>n_timeout = timeout\<rparr>, if server \<noteq> '''' then server else DNSServer)"

definition NetLookupAddr :: "'w upstream \<Rightarrow> NetResolver \<Rightarrow> string \<Rightarrow> 'w \<Rightarrow> string list option \<times> 'w" where
  "NetLookupAddr U n addr = up_LookupAddr U (n_timeout n) addr"

definition NetLookupIPAddr ::
    "'w upstream \<Rightarrow> NetResolver \<Rightarrow> string \<Rightarrow> 'w \<Rightarrow> 8 word list list option \<times> 'w" where
  "NetLookupIPAddr U n host = up_LookupIPAddr U (n_timeout n) host"

definition NetCheckSPF ::
    "golib \<Rightarrow> 'w upstream \<Rightarrow> NetResolver \<Rightarrow> 8 word list \<Rightarrow> string \<Rightarrow> string \<Rightarrow> 'w \<Rightarrow> SPFResult \<times> 'w" where
  "NetCheckSPF G U n ip domain sender w =
     (case up_CheckHost U (n_timeout n) ip domain sender w of
        (Some r, w') \<Rightarrow> (convertSPF G r, w')
      | (None, w') \<Rightarrow> (SPFTempError, w'))"

definition net_resolver :: "golib \<Rightarrow> 'w upstream \<Rightarrow> NetResolver \<Rightarrow> 'w Resolver" where
  "net_resolver G U n =
     \<lparr>LookupAddr = NetLookupAddr U n, LookupIPAddr = NetLookupIPAddr U n,
      CheckSPF = NetCheckSPF G U n\<rparr>"

datatype goroutine = Querying | Finished

record race =
  inner :: goroutine
  chan :: "SPFResult list"
  ctx_done :: bool
  returned :: "SPFResult option"

definition race_init :: race where
  "race_init = \<lparr>inner = Querying, chan = [], ctx_done = False, returned = None\<rparr>"

text \<open>One step of a \<^verbatim>\<open>CheckSPF\<close> call whose library result is \<open>v\<close> and whose channel has
  capacity \<open>cap\<close>. The source makes the channel with capacity 1.\<close>

inductive race_step :: "nat \<Rightarrow> SPFResult \<Rightarrow> race \<Rightarrow> race \<Rightarrow> bool" for cap v where
  send: "inner s = Querying \<Longrightarrow> length (chan s) < cap \<Longrightarrow>
     race_step cap v s (s\<lparr>inner := Finished, chan := chan s @ [v]\<rparr>)"
| handoff: "inner s = Querying \<Longrightarrow> chan s = [] \<Longrightarrow> returned s = None \<Longrightarrow>
     race_step cap v s (s\<lparr>inner := Finished, returned := Some v\<rparr>)"
| expire: "\<not> ctx_done s \<Longrightarrow> race_step cap v s (s\<lparr>ctx_done := True\<rparr>)"
| receive: "returned s = None \<Longrightarrow> chan s = x # xs \<Longrightarrow>
     race_step cap v s (s\<lparr>returned := Some x, chan := xs\<rparr>)"
| timeout: "returned s = None \<Longrightarrow> ctx_done s \<Longrightarrow>
     race_step cap v s (s\<lparr>returned := Some SPFTempError\<rparr>)"

abbreviation race_reach :: "nat \<Rightarrow> SPFResult \<Rightarrow> race \<Rightarrow> bool" where
  "race_reach cap v \<equiv> reach race_init (race_step cap v)"

inductive_cases race_stepE: "race_step cap v s t"

section \<open>Lemmas\<close>

lemma convertSPF_range:
  "convertSPF G r \<in> {SPFPass, SPFFail, SPFSoftFail, SPFNeutral, SPFNone, SPFTempError, SPFPermError}"
  by (simp add: convertSPF_def Let_def)

definition race_inv :: "SPFResult \<Rightarrow> race \<Rightarrow> bool" where
  "race_inv v s \<longleftrightarrow>
     (inner s = Querying \<longrightarrow> chan s = []) \<and> set (chan s) \<subseteq> {v} \<and>
     (\<forall>x. returned s = Some x \<longrightarrow> x = v \<or> x = SPFTempError \<and> ctx_done s)"

lemma race_step_inv: "race_step cap v s t \<Longrightarrow> race_inv v s \<Longrightarrow> race_inv v t"
  by (induction rule: race_step.induct) (auto simp: race_inv_def)

interpretation spf_race: invariant_system race_init "race_step cap v" "race_inv v"
  by unfold_locales (simp add: race_inv_def race_init_def, rule race_step_inv)

lemma race_stuck_step:
  "race_step 0 v s t \<Longrightarrow> inner s = Querying \<Longrightarrow> returned s \<noteq> None \<Longrightarrow>
     inner t = Querying \<and> returned t \<noteq> None"
  by (auto elim: race_stepE)

lemma race_stuck:
  assumes "(race_step 0 v)\<^sup>*\<^sup>* s t" "inner s = Querying" "returned s \<noteq> None"
  shows "inner t = Querying \<and> returned t \<noteq> None"
  using assms(1) by (induction rule: rtranclp_induct) (use assms(2,3) race_stuck_step in blast)+

section \<open>Properties\<close>

text \<open>C28: With the channel capacity of one the SPF goroutine never leaks: in every reachable state in
  which it has not finished it can take a step that finishes it, also after the caller left at its
  deadline.\<close>

theorem CheckSPF_no_leak:
  assumes "race_reach 1 v s" "inner s = Querying"
  shows "\<exists>t. race_step 1 v s t \<and> inner t = Finished"
proof -
  have "chan s = []" using spf_race.reach_inv [OF assms(1)] assms(2) by (simp add: race_inv_def)
  then have "race_step 1 v s (s\<lparr>inner := Finished, chan := chan s @ [v]\<rparr>)"
    using assms(2) by (intro race_step.send) simp_all
  then show ?thesis by (intro exI conjI) auto
qed

lemma race_expired: "race_reach cap v (race_init\<lparr>ctx_done := True\<rparr>)"
  by (rule reach.reach_step [OF reach.reach_init]) (rule race_step.expire, simp add: race_init_def)

lemma race_timed_out:
  "race_reach cap v \<lparr>inner = Querying, chan = [], ctx_done = True, returned = Some SPFTempError\<rparr>"
proof -
  have "race_reach cap v (race_init\<lparr>ctx_done := True, returned := Some SPFTempError\<rparr>)"
    by (rule reach.reach_step [OF race_expired]) (rule race_step.timeout [where s = "race_init\<lparr>ctx_done := True\<rparr>",
        simplified], simp_all add: race_init_def)
  then show ?thesis by (simp add: race_init_def)
qed

theorem CheckSPF_no_leak_witness:
  "\<exists>t. race_step 1 SPFPass \<lparr>inner = Querying, chan = [], ctx_done = True, returned = Some SPFTempError\<rparr> t \<and>
     inner t = Finished"
  by (rule CheckSPF_no_leak [OF race_timed_out]) simp

text \<open>The buffer is necessary: on an unbuffered channel, once the caller has returned at its
  deadline, the goroutine stays unfinished in every later state.\<close>

lemma CheckSPF_unbuffered_leaks:
  assumes "(race_step 0 v)\<^sup>*\<^sup>* s t"
    and "s = \<lparr>inner = Querying, chan = [], ctx_done = True, returned = Some SPFTempError\<rparr>"
  shows "race_reach 0 v s \<and> inner t = Querying"
  using race_timed_out race_stuck [OF assms(1)] assms(2) by simp

text \<open>C29: What a \<^verbatim>\<open>CheckSPF\<close> call returns is the translated library result or, only once the
  deadline passed, a temporary error; and once the deadline passed a caller that has not returned
  can return.\<close>

theorem CheckSPF_outcome:
  assumes "race_reach 1 v s"
  shows "(returned s = Some x \<longrightarrow> x = v \<or> x = SPFTempError \<and> ctx_done s) \<and>
     (ctx_done s \<and> returned s = None \<longrightarrow> (\<exists>t. race_step 1 v s t \<and> returned t \<noteq> None))"
proof (intro conjI impI)
  show "x = v \<or> x = SPFTempError \<and> ctx_done s" if "returned s = Some x"
    using spf_race.reach_inv [OF assms] that by (auto simp: race_inv_def)
  assume "ctx_done s \<and> returned s = None"
  then have "race_step 1 v s (s\<lparr>returned := Some SPFTempError\<rparr>)"
    by (intro race_step.timeout) simp_all
  then show "\<exists>t. race_step 1 v s t \<and> returned t \<noteq> None" by (intro exI conjI) auto
qed

theorem CheckSPF_outcome_witness:
  "\<exists>t. race_step 1 SPFPass (race_init\<lparr>ctx_done := True\<rparr>) t \<and> returned t \<noteq> None"
  using CheckSPF_outcome [OF race_expired, where v = SPFPass and x = SPFPass]
  by (simp add: race_init_def)

end
