(* ===== verification/MainProg.thy ===== *)
theory MainProg
  imports Server RetryQueue Dispatch Resolver
begin

text \<open>
  The program, \<^verbatim>\<open>cmd/smtpfilter/main.go\<close>: start-up, the signal loop with reload and
  shutdown, and the environment in which it runs its sessions (the production resolver, and the
  queue around the router as the dispatcher).

  The world of the program is the queue, the next free message address and the outside world. The
  signal loop is a function of the events it receives; each reload event carries what reading the file
  gives at that time. \<^const>\<open>None\<close> is a drain that does not return.
\<close>

section \<open>Start-up and the signal loop\<close>

definition drainLimit :: int where
  "drainLimit = 30000000000"

record 'v proc =
  p_srv :: Server
  p_resolver :: NetResolver
  p_spf_server :: string
  p_queue :: "Queue option"
  p_out :: 'v
  p_reload_errors :: nat

datatype exit = Exit int | Return

text \<open>From the flags to the running process. \<open>cert_loads\<close> is \<^verbatim>\<open>tls.LoadX509KeyPair\<close>,
  \<open>dns0\<close> the initial value of \<^verbatim>\<open>spf.DNSServer\<close>.\<close>

definition startup ::
    "golib \<Rightarrow> (string \<Rightarrow> load_error + Config) \<Rightarrow> string \<Rightarrow> bool \<Rightarrow> (string \<Rightarrow> string \<Rightarrow> bool) \<Rightarrow> string \<Rightarrow> 'v \<Rightarrow> exit + 'v proc" where
  "startup G decode path check cert_loads dns0 v =
     (case Load G decode path of
        Inl e \<Rightarrow> Inl (Exit 2)
      | Inr cfg \<Rightarrow>
          if check then Inl Return
          else
            (let tls = t_Cert (c_TLS cfg) \<noteq> '''' \<and> t_Key (c_TLS cfg) \<noteq> ''''
             in if tls \<and> \<not> cert_loads (t_Cert (c_TLS cfg)) (t_Key (c_TLS cfg)) then Inl (Exit 2)
                else
                  (let (res, spf) = NewNetResolver (DNSTimeout (c_DNS cfg)) (d_Server (c_DNS cfg)) dns0
                   in Inr \<lparr>p_srv = server_New cfg tls, p_resolver = res, p_spf_server = spf,
                           p_queue = (if Enabled (c_Retry cfg) then Some (Start (New (c_Retry cfg))) else None),
                           p_out = v, p_reload_errors = 0\<rparr>)))"

datatype event = Hangup "string \<Rightarrow> load_error + Config" | Terminate | ServeReturned "string option"

definition drain_queue :: "'v clock \<Rightarrow> 'v dispatcher \<Rightarrow> 'v proc \<Rightarrow> 'v proc option" where
  "drain_queue N D p =
     (case p_queue p of
        None \<Rightarrow> Some p
      | Some q \<Rightarrow>
          (case Drain N D drainLimit (q, p_out p) of
             None \<Rightarrow> None
           | Some (q', v) \<Rightarrow> Some (p\<lparr>p_queue := Some q', p_out := v\<rparr>)))"

text \<open>The loop of \<^verbatim>\<open>main\<close>; the first component of the result is \<^const>\<open>None\<close> while the
  process runs.\<close>

fun signal_loop ::
    "golib \<Rightarrow> 'v clock \<Rightarrow> 'v dispatcher \<Rightarrow> string \<Rightarrow> event list \<Rightarrow> 'v proc \<Rightarrow> (exit option \<times> 'v proc) option" where
  "signal_loop G N D path [] p = Some (None, p)"
| "signal_loop G N D path (Hangup decode # evs) p =
     (case Load G decode path of
        Inl e \<Rightarrow> signal_loop G N D path evs (p\<lparr>p_reload_errors := Suc (p_reload_errors p)\<rparr>)
      | Inr cfg \<Rightarrow> signal_loop G N D path evs (p\<lparr>p_srv := Reload cfg (p_srv p)\<rparr>))"
| "signal_loop G N D path (Terminate # evs) p =
     (case drain_queue N D (p\<lparr>p_srv := (p_srv p)\<lparr>srv_closing := True, srv_listeners := []\<rparr>\<rparr>) of
        None \<Rightarrow> None
      | Some p' \<Rightarrow> Some (Some Return, p'))"
| "signal_loop G N D path (ServeReturned err # evs) p =
     (case err of
        None \<Rightarrow> Some (Some Return, p)
      | Some e \<Rightarrow> (case drain_queue N D p of None \<Rightarrow> None | Some p' \<Rightarrow> Some (Some (Exit 1), p')))"

section \<open>The environment of the sessions\<close>

record 'v world =
  w_queue :: Queue
  w_next :: nat
  w_out :: 'v

definition lift_out :: "('v \<Rightarrow> 'a \<times> 'v) \<Rightarrow> 'v world \<Rightarrow> 'a \<times> 'v world" where
  "lift_out f W = (case f (w_out W) of (x, v) \<Rightarrow> (x, W\<lparr>w_out := v\<rparr>))"

definition lift_resolver :: "'v Resolver \<Rightarrow> 'v world Resolver" where
  "lift_resolver R =
     \<lparr>LookupAddr = (\<lambda>a. lift_out (LookupAddr R a)), LookupIPAddr = (\<lambda>n. lift_out (LookupIPAddr R n)),
      CheckSPF = (\<lambda>ip d f. lift_out (CheckSPF R ip d f))\<rparr>"

text \<open>The dispatcher \<^verbatim>\<open>main\<close> gives to the server: the queue if it is enabled, else the router.\<close>

definition main_dispatcher :: "bool \<Rightarrow> 'v outside \<Rightarrow> 'v clock \<Rightarrow> 'v world dispatcher" where
  "main_dispatcher enabled X N ctx m W =
     (if enabled then
        (case queue_Dispatch N (Router_Dispatch X) ctx m (w_queue W, w_out W) of
           (re, q, v) \<Rightarrow> (re, W\<lparr>w_queue := q, w_out := v\<rparr>))
      else lift_out (Router_Dispatch X ctx m) W)"

definition server_env ::
    "bool \<Rightarrow> 'v outside \<Rightarrow> 'v clock \<Rightarrow> 'v Resolver \<Rightarrow> bool \<Rightarrow> (string \<Rightarrow> 'v \<Rightarrow> reader option \<times> 'v) \<Rightarrow>
     (int \<Rightarrow> 'v \<Rightarrow> bool \<times> 'v) \<Rightarrow> 'v world env" where
  "server_env enabled X N R tls hs dl =
     \<lparr>e_lib = o_lib X, e_now = lift_out N, e_alloc = (\<lambda>W. (w_next W, W\<lparr>w_next := Suc (w_next W)\<rparr>)),
      e_resolver = lift_resolver R, e_dispatch = main_dispatcher enabled X N, e_tlsConf = tls,
      e_handshake = (\<lambda>i. lift_out (hs i)), e_SetReadDeadline = (\<lambda>d. lift_out (dl d))\<rparr>"

section \<open>The queue under the sessions\<close>

text \<open>The invariant the sessions keep: the invariant of the queue, and no address is used twice.\<close>

definition world_inv :: "Retry \<Rightarrow> 'v world \<Rightarrow> bool" where
  "world_inv cfg W \<longleftrightarrow> queue_inv cfg (w_queue W) \<and> (\<forall>i \<in># queued_ids (q_log (w_queue W)). i < w_next W)"

lemma lift_out_inv [simp]: "world_inv cfg (snd (lift_out f W)) = world_inv cfg W"
  by (simp add: lift_out_def world_inv_def split: prod.split)

lemma queue_Dispatch_inv:
  assumes "queue_inv cfg q" "m_id m \<notin># queued_ids (q_log q)" "m_Route m \<noteq> None" "int (length (m_Body m)) < 2 ^ 62"
    "queue_Dispatch N D ctx m (q, w) = (re, q', w')"
  shows "queue_inv cfg q' \<and> set_mset (queued_ids (q_log q')) \<subseteq> insert (m_id m) (set_mset (queued_ids (q_log q)))"
proof -
  obtain res err w1 where d: "D ctx m w = ((res, err), w1)" by (metis prod.collapse)
  obtain b q2 w2 where e: "enqueue N m (q, w1) = (b, q2, w2)" by (metis prod_cases3)
  have "q' = q \<or> q' = q2"
    using assms(5) d e by (auto simp: queue_Dispatch_def split: if_splits bool.splits)
  then show ?thesis
    using enqueue_inv [OF e assms(1-4)] enqueue_trying(2) [OF e] assms(1) by auto
qed

lemma server_submit:
  assumes "world_inv cfg W" "m_Route m \<noteq> None" "int (length (m_Body m)) < 2 ^ 62" "m_id m = w_next W"
  shows "world_inv cfg (snd (main_dispatcher enabled X N ctx m
     (snd (lift_out N (W\<lparr>w_next := Suc (w_next W)\<rparr>)))))"
proof -
  let ?W = "snd (lift_out N (W\<lparr>w_next := Suc (w_next W)\<rparr>))"
  have W: "w_queue ?W = w_queue W" "w_next ?W = Suc (w_next W)" by (simp_all add: lift_out_def split: prod.split)
  obtain re q v where d: "queue_Dispatch N (Router_Dispatch X) ctx m (w_queue W, w_out ?W) = (re, q, v)"
    by (metis prod_cases3)
  have "m_id m \<notin># queued_ids (q_log (w_queue W))" using assms(1,4) by (auto simp: world_inv_def)
  from queue_Dispatch_inv [OF _ this assms(2,3) d] assms(1,4)
  have "queue_inv cfg q" "\<forall>i \<in># queued_ids (q_log q). i < Suc (w_next W)"
    by (auto simp: world_inv_def less_Suc_eq)
  then have "world_inv cfg (?W\<lparr>w_queue := q, w_out := v\<rparr>)" by (simp add: world_inv_def W)
  moreover have "world_inv cfg ?W" using assms(1) by (auto simp: world_inv_def W less_Suc_eq)
  ultimately show ?thesis
    by (cases enabled) (simp_all add: main_dispatcher_def d W)
qed

interpretation sessions: session_world "server_env enabled X N R tls hs dl" "world_inv cfg"
  by unfold_locales
    (simp_all add: server_env_def lift_resolver_def server_submit)

section \<open>Properties\<close>

text \<open>C9: A whole session against the running program keeps the queue's invariant, whatever the client
  sends and whatever the dispositions, the resolver and the clock do: the queue stays within its
  limits, its byte count is exact, and every message it ever logged as queued is held or settled, each
  once.\<close>

theorem session_keeps_queue:
  assumes "world_inv rcfg W" "env_ok (server_env enabled X N R tls hs dl) cfg"
    "MaxMessageBytes (c_Limits cfg) < 2 ^ 62" "short stream"
  shows "world_inv rcfg (s_world (snd (handleConn (server_env enabled X N R tls hs dl) cfg mode remote stream W)))"
  using assms by (rule sessions.handleConn_keeps)

definition sample_world :: "unit world" where
  "sample_world = \<lparr>w_queue = New sample_retry, w_next = 1, w_out = ()\<rparr>"

definition sample_server_env :: "unit world env" where
  "sample_server_env = server_env True sample_outside (\<lambda>v. (0, v))
     \<lparr>LookupAddr = (\<lambda>_ w. (None, w)), LookupIPAddr = (\<lambda>_ w. (None, w)), CheckSPF = (\<lambda>_ _ _ w. (SPFNone, w))\<rparr> True
     (\<lambda>_ v. (None, v)) (\<lambda>_ v. (True, v))"

lemma sample_world_inv: "world_inv sample_retry sample_world"
  using New_inv [of sample_retry] by (simp add: world_inv_def sample_world_def sample_retry_def) (simp add: New_def)

theorem session_keeps_queue_witness:
  "world_inv sample_retry (s_world (snd (handleConn sample_server_env sample_config TLSPlain ''10.1.2.3:40000'' sample_stream sample_world)))"
  unfolding sample_server_env_def
proof (rule session_keeps_queue [OF sample_world_inv])
  have m: "MaxMessageBytes (c_Limits sample_config) = 10485760"
    by (simp add: sample_config_def sample_config0_def Prepare_def Let_def split: prod.split)
  then show "MaxMessageBytes (c_Limits sample_config) < 2 ^ 62" by simp
  show "env_ok (server_env True sample_outside (\<lambda>v. (0, v))
     \<lparr>LookupAddr = (\<lambda>_ w. (None, w)), LookupIPAddr = (\<lambda>_ w. (None, w)), CheckSPF = (\<lambda>_ _ _ w. (SPFNone, w))\<rparr> True
     (\<lambda>_ v. (None, v)) (\<lambda>_ v. (True, v))) sample_config"
    by (simp add: env_ok_def server_env_def lift_out_def m)
  show "short sample_stream" by (simp add: short_def sample_stream_def sample_input_def sample_lines_def)
qed

text \<open>C26: After any series of reloads the server has the configuration of the last file that loaded,
  or the one it had if none did; it is valid if the first one was; and the connection limit, the
  resolver and the queue are those of the start.\<close>

theorem reload_keeps_last_valid:
  "\<exists>p'. signal_loop G N D path (map Hangup ds) p = Some (None, p') \<and>
     srv_cfg (p_srv p') = foldl (\<lambda>c d. case Load G d path of Inl _ \<Rightarrow> c | Inr c' \<Rightarrow> c') (srv_cfg (p_srv p)) ds \<and>
     (config_ok G (srv_cfg (p_srv p)) \<longrightarrow> config_ok G (srv_cfg (p_srv p'))) \<and>
     sem_cap (p_srv p') = sem_cap (p_srv p) \<and> p_resolver p' = p_resolver p \<and> p_queue p' = p_queue p"
proof (induction ds arbitrary: p)
  case (Cons d ds)
  show ?case
  proof (cases "Load G d path")
    case (Inl e)
    with Cons.IH [of "p\<lparr>p_reload_errors := Suc (p_reload_errors p)\<rparr>"] show ?thesis by simp
  next
    case (Inr c)
    then have "config_ok G c" using Load_Inr [OF Inr] by (auto simp: Validate_Nil)
    with Inr Cons.IH [of "p\<lparr>p_srv := Reload c (p_srv p)\<rparr>"] show ?thesis by (auto simp: Reload_def)
  qed
qed simp

theorem reload_keeps_last_valid_witness:
  "\<exists>p'. signal_loop sample_lib (\<lambda>v. (0, v)) StubDispatch ''config.json'' (map Hangup [\<lambda>_. Inl OpenError])
       \<lparr>p_srv = server_New sample_config True, p_resolver = \<lparr>n_timeout = 5\<rparr>, p_spf_server = '''', p_queue = None,
         p_out = (), p_reload_errors = 0\<rparr> = Some (None, p') \<and>
     srv_cfg (p_srv p') = sample_config"
  using reload_keeps_last_valid [of sample_lib "\<lambda>v. (0, v)" StubDispatch "''config.json''" "[\<lambda>_. Inl OpenError]"
      "\<lparr>p_srv = server_New sample_config True, p_resolver = \<lparr>n_timeout = 5\<rparr>, p_spf_server = '''', p_queue = None,
         p_out = (), p_reload_errors = 0\<rparr>"]
  by (auto simp: Load_def server_New_def)


definition sample_proc :: "int proc" where
  "sample_proc = \<lparr>p_srv = server_New sample_config True, p_resolver = \<lparr>n_timeout = 5\<rparr>, p_spf_server = '''',
     p_queue = Some sample_queue, p_out = 0, p_reload_errors = 0\<rparr>"




end
